theory Spec2Isabelle
  imports Main "HOL-Library.Sublist"
begin

section \<open>Appomata: a shallow embedding of the automaton engine\<close>

text \<open>
  The source is one ES module (strict mode) with three closures: \<open>Appomata\<close> (the
  factory, with the registries \<open>allTomata\<close>, \<open>connectedApps\<close>, \<open>names\<close>),
  \<open>Automata\<close> (the class, with the table \<open>states\<close> and the bus
  \<open>automataEventBus\<close>, both shared by every instance) and \<open>App\<close> (with
  \<open>appEventBus\<close>), and the class \<open>State\<close>.  The embedding keeps the closure
  variables in one record \<open>world\<close> that every operation takes and returns, keeps
  Automata objects in a store addressed by references, and writes every \<open>throw\<close> and
  every rejected promise as an \<open>error\<close> value.

  Scope of the embedding.
  \<^item> \<open>Automata_transit\<close> is a call of \<open>transit\<close> as a caller that awaits it sees
    it: run to completion, with nothing else taking a turn in between.  A call that is
    made and not awaited (the one in \<open>tryTransit\<close>) runs up to its \<open>await\<close> and is
    suspended there; the world keeps the suspended transits (\<open>pending\<close>), each takes
    its later turns one at a time (\<open>resume\<close>), and no order of the turns is fixed.
  \<^item> An action handler is a function of the loaded delta.  It may change the context
    and the buffer it is given, and it either raises, returns a falsy value, or returns
    an Omega object.  Other effects of handlers and other return values are excluded by
    the type \<open>handler\<close>.  A handler does its work when it is called; what the promise
    it may return settles with is known from then on.
  \<^item> The external collaborators (\<open>object-observer\<close>, \<open>virtual-dom\<close>) are not
    modelled: a context is a plain object, \<open>stateChanged\<close> notifications are not
    traced, and \<open>App.onTransition\<close> is one traced effect.
  \<^item> \<open>State.addView\<close>, \<open>Automata.addView\<close> and \<open>View.render\<close> are not
    modelled; within the modelled operations a State object does not change once it is
    registered, so the automaton's \<open>now\<close> holds the State by value.
  \<^item> An action is an own property of its State instance, so an action named like a data
    field or a method of the State would replace that member.  The engine's use of
    such a State (\<open>State_plain\<close> is false) is not modelled either: \<open>transit\<close>
    stops with \<open>Unmodelled\<close>.
  \<^item> Values are trees: an Omega's output shares no object with the buffer or the
    context.
  \<^item> Plain objects used as dictionaries inherit the members of \<open>Object.prototype\<close>;
    a lookup distinguishes own, inherited and missing keys.  Where the source's
    behaviour after hitting an inherited member depends on that member's own
    properties, the embedding stops with the value \<open>Unmodelled\<close>.
\<close>

subsection \<open>JavaScript values and errors\<close>

datatype jsval = Undefined | Null | JStr string | JObj "(string \<times> jsval) list"

type_synonym object = "(string \<times> jsval) list"

text \<open>ToBoolean: \<open>undefined\<close>, \<open>null\<close> and the empty string are falsy, objects are truthy.\<close>

fun truthy :: "jsval \<Rightarrow> bool" where
  "truthy Undefined = False"
| "truthy Null = False"
| "truthy (JStr s) = (s \<noteq> [])"
| "truthy (JObj kvs) = True"

text \<open>ToPropertyKey, as used by \<open>states[omega.next]\<close>.\<close>

fun to_key :: "jsval \<Rightarrow> string" where
  "to_key Undefined = ''undefined''"
| "to_key Null = ''null''"
| "to_key (JStr s) = s"
| "to_key (JObj kvs) = ''[object Object]''"

text \<open>
  The values thrown by the source.  \<open>NotInitialized\<close> is the string
  \<open>"Current state is not initialized"\<close> (transit), \<open>UnknownState\<close> the string
  \<open>"given state doesn't exists"\<close> (init), \<open>NoMatchingTransition automata action\<close> the
  template string thrown by \<open>View.transit\<close>, \<open>AssertionError msg\<close> a failed
  \<open>assert\<close>, \<open>Raised v\<close> a value thrown by a user's action handler; \<open>TypeError\<close> and
  \<open>ReferenceError\<close> are the engine's own.
\<close>

datatype error =
    TypeError
  | ReferenceError
  | NotInitialized
  | UnknownState
  | NoMatchingTransition string string
  | AssertionError string
  | Raised jsval
  | Unmodelled

text \<open>
  Modelled from the spec: \<open>assert\<close> is imported from \<open>./helpers\<close>, which is not part
  of the sources; a failed assertion aborts the calling operation (spec section 7:
  registration errors "must abort the calling operation") with the given message.
\<close>

definition assert :: "bool \<Rightarrow> string \<Rightarrow> error + unit" where
  "assert cond msg = (if cond then Inr () else Inl (AssertionError msg))"

subsection \<open>Plain objects as dictionaries\<close>

text \<open>The property names every plain object inherits from \<open>Object.prototype\<close>.\<close>

definition Object_prototype :: "string list" where
  "Object_prototype =
     [''constructor'', ''__defineGetter__'', ''__defineSetter__'', ''hasOwnProperty'',
      ''__lookupGetter__'', ''__lookupSetter__'', ''isPrototypeOf'',
      ''propertyIsEnumerable'', ''toString'', ''valueOf'', ''__proto__'',
      ''toLocaleString'']"

datatype 'a slot = Own 'a | Inherited | Missing

text \<open>\<open>obj[k]\<close> on a dictionary object: an own entry, else an inherited member (truthy), else \<open>undefined\<close>.\<close>

definition js_get :: "(string \<times> 'a) list \<Rightarrow> string \<Rightarrow> 'a slot" where
  "js_get obj k =
     (case map_of obj k of
        Some v \<Rightarrow> Own v
      | None \<Rightarrow> if k \<in> set Object_prototype then Inherited else Missing)"

text \<open>Truthiness of \<open>obj[k]\<close>, as in \<open>if (!states[state.name])\<close>.\<close>

definition registered :: "(string \<times> 'a) list \<Rightarrow> string \<Rightarrow> bool" where
  "registered obj k = (case js_get obj k of Own v \<Rightarrow> True | Inherited \<Rightarrow> True | Missing \<Rightarrow> False)"

text \<open>\<open>obj[k] = v\<close>: an existing key keeps its place, a new key goes last.\<close>

fun js_put :: "(string \<times> 'a) list \<Rightarrow> string \<Rightarrow> 'a \<Rightarrow> (string \<times> 'a) list" where
  "js_put [] k v = [(k, v)]"
| "js_put ((k', v') # rest) k v =
     (if k' = k then (k, v) # rest else (k', v') # js_put rest k v)"

text \<open>
  The order of the own properties of an object, as \<open>Object.entries\<close> and
  \<open>Object.values\<close> list them: first the keys that are array indices, in ascending
  numeric order, then the other keys in the order they were created.  An array index
  is a canonical decimal numeral (\<open>"0"\<close>, or digits that do not start with \<open>0\<close>)
  whose value is below \<open>2\<^sup>3\<^sup>2 - 1\<close>.
\<close>

definition digits :: "(char \<times> int) list" where
  "digits =
     [(CHR ''0'', 0), (CHR ''1'', 1), (CHR ''2'', 2), (CHR ''3'', 3), (CHR ''4'', 4),
      (CHR ''5'', 5), (CHR ''6'', 6), (CHR ''7'', 7), (CHR ''8'', 8), (CHR ''9'', 9)]"

definition digit :: "char \<Rightarrow> bool" where
  "digit c = (case map_of digits c of Some n \<Rightarrow> True | None \<Rightarrow> False)"

definition numeral_value :: "string \<Rightarrow> int" where
  "numeral_value k =
     foldl (\<lambda>n c. 10 * n + (case map_of digits c of Some d \<Rightarrow> d | None \<Rightarrow> 0)) 0 k"

definition array_index :: "string \<Rightarrow> bool" where
  "array_index k =
     (k \<noteq> [] \<and> list_all digit k \<and> (hd k \<noteq> CHR ''0'' \<or> length k = 1)
      \<and> numeral_value k < 4294967295)"

definition Object_entries :: "(string \<times> 'a) list \<Rightarrow> (string \<times> 'a) list" where
  "Object_entries obj =
     sort_key (\<lambda>(k, v). numeral_value k) (filter (\<lambda>(k, v). array_index k) obj)
     @ filter (\<lambda>(k, v). \<not> array_index k) obj"

definition Object_values :: "(string \<times> 'a) list \<Rightarrow> 'a list" where
  "Object_values obj = map snd (Object_entries obj)"

text \<open>
  \<open>v.k\<close> for the two keys the engine reads from a handler input (\<open>message\<close> and
  \<open>from\<close>, which no primitive wrapper and no prototype defines): reading a property of
  \<open>undefined\<close> or \<open>null\<close> raises.
\<close>

fun get_prop :: "jsval \<Rightarrow> string \<Rightarrow> error + jsval" where
  "get_prop Undefined k = Inl TypeError"
| "get_prop Null k = Inl TypeError"
| "get_prop (JStr s) k = Inr Undefined"
| "get_prop (JObj kvs) k = Inr (case map_of kvs k of Some v \<Rightarrow> v | None \<Rightarrow> Undefined)"

text \<open>\<open>JSON.parse(JSON.stringify(v))\<close> on these values: properties holding \<open>undefined\<close> are dropped.\<close>

fun json_clone :: "jsval \<Rightarrow> jsval" where
  "json_clone (JObj kvs) =
     JObj (map (\<lambda>(k, v). (k, json_clone v)) (filter (\<lambda>(k, v). v \<noteq> Undefined) kvs))"
| "json_clone v = v"

subsection \<open>Views, Deltas and Omegas\<close>

record View =
  name :: string
  states :: "string list"
  automatas :: "string list"
  automata :: "string option"

record omega =
  "next" :: jsval
  "output" :: jsval
  views :: "View list"
  "context" :: jsval

text \<open>
  A Delta has the shape \<open>createDelta\<close> gives it.  \<open>from\<close> is overwritten by
  \<open>Automata.transit\<close> with \<open>this.now.name\<close>.
\<close>

record delta =
  action :: string
  input :: jsval
  "from" :: jsval

definition createDelta :: "string \<Rightarrow> jsval \<Rightarrow> jsval \<Rightarrow> delta" where
  "createDelta a i f = \<lparr> action = a, input = i, from = f \<rparr>"

definition createOmega :: "jsval \<Rightarrow> jsval \<Rightarrow> View list \<Rightarrow> jsval \<Rightarrow> omega" where
  "createOmega n out vs c = \<lparr> next = n, output = out, views = vs, context = c \<rparr>"

subsection \<open>States and action handlers\<close>

text \<open>
  A handler receives the loaded delta \<open>{...delta, context, buffer}\<close>: the delta and the
  automaton's context and buffer, both by reference.  It returns what it did to them,
  and either the value it threw (or rejected with) or the value it returned:
  \<open>None\<close> for a falsy value, \<open>Some om\<close> for an Omega.
\<close>

datatype outcome = Threw error | Returned "omega option"

type_synonym handler = "delta \<Rightarrow> object \<Rightarrow> object \<Rightarrow> outcome \<times> object \<times> object"

text \<open>
  \<open>defineAction\<close> stores each handler as an own property of the State instance,
  \<open>this[name] = (delta) => f(delta)\<close>; \<open>actions\<close> holds these own properties.
  \<open>automata\<close> is \<open>None\<close> until \<open>addState\<close> assigns it.
\<close>

record State =
  name :: string
  "local" :: jsval
  views :: "(string \<times> View) list"
  automata :: "string option"
  actions :: "(string \<times> handler) list"

definition defineAction :: "State \<Rightarrow> string \<Rightarrow> handler \<Rightarrow> State" where
  "defineAction st n f = st\<lparr> actions := js_put (actions st) n f \<rparr>"

text \<open>
  The constructor: \<open>new State({name, local, actions, views})\<close>.  The third
  argument lists the entries of \<open>actions\<close> as \<open>Object.entries\<close> gives them.
\<close>

definition State_new ::
  "string \<Rightarrow> jsval \<Rightarrow> (string \<times> handler) list \<Rightarrow> (string \<times> View) list \<Rightarrow> State" where
  "State_new n l acts vs =
     foldl (\<lambda>st (k, f). defineAction st k f)
       \<lparr> State.name = n, local = l, State.views = vs, State.automata = None, actions = [] \<rparr>
       acts"

text \<open>
  The other property names a State instance answers to: its data fields, the methods of
  \<open>State.prototype\<close>, and (through it) the members of \<open>Object.prototype\<close>.
\<close>

definition State_fields :: "string list" where
  "State_fields = [''name'', ''local'', ''views'', ''automata'']"

definition State_prototype :: "string list" where
  "State_prototype =
     [''constructor'', ''addView'', ''transit'', ''failed'', ''defineAction'', ''cleanUp'']"

fun field_truthy :: "State \<Rightarrow> string \<Rightarrow> bool" where
  "field_truthy st k =
     (if k = ''name'' then State.name st \<noteq> []
      else if k = ''local'' then truthy (local st)
      else if k = ''views'' then True
      else if k = ''automata'' then (case State.automata st of Some n \<Rightarrow> n \<noteq> [] | None \<Rightarrow> False)
      else False)"

text \<open>
  An action named like a data field or like one of the methods the engine calls on a
  State would replace that member on the instance, and one named \<open>__proto__\<close> would
  replace the prototype.  \<open>State_plain\<close> says that no action does so; an action named
  \<open>failed\<close> is allowed (the built-in failed State has one) and is modelled.  \<open>Automata.transit\<close> reads \<open>name\<close> and calls \<open>transit\<close> and
  \<open>cleanUp\<close> on the current State, and reads \<open>views\<close> of the new one; the embedding
  stops with \<open>Unmodelled\<close> when it would do so on a State that is not plain.
\<close>

definition State_plain :: "State \<Rightarrow> bool" where
  "State_plain st =
     list_all
       (\<lambda>(k, h). k \<notin> set (State_fields @
                              [''addView'', ''transit'', ''defineAction'', ''cleanUp'', ''__proto__'']))
       (actions st)"

text \<open>Truthiness of \<open>this.now[action]\<close>, the test of \<open>tryTransit\<close>.\<close>

definition has_member :: "State \<Rightarrow> string \<Rightarrow> bool" where
  "has_member st k =
     (case map_of (actions st) k of
        Some h \<Rightarrow> True
      | None \<Rightarrow>
          if k \<in> set State_fields then field_truthy st k
          else k \<in> set State_prototype \<or> k \<in> set Object_prototype)"

text \<open>
  The method \<open>State.prototype.failed\<close>:
  \<open>createOmega("failed", {name: this.name, ...delta})\<close>, with \<open>views\<close> and
  \<open>context\<close> at their defaults.
\<close>

definition State_failed :: "State \<Rightarrow> delta \<Rightarrow> object \<Rightarrow> object \<Rightarrow> omega" where
  "State_failed st d ctx buf =
     createOmega (JStr ''failed'')
       (JObj [(''name'', JStr (State.name st)), (''action'', JStr (action d)),
              (''input'', input d), (''from'', from d),
              (''context'', JObj ctx), (''buffer'', JObj buf)])
       [] (JObj [])"

text \<open>
  How the promise returned by \<open>State.transit\<close> settles.  \<open>Resolved None\<close> is a promise
  resolved with a falsy value.
\<close>

datatype settled = Resolved "omega option" | Rejected error | NotModelled

text \<open>
  The call \<open>this.failed(delta)\<close>: an own action named \<open>failed\<close> shadows the prototype
  method.
\<close>

definition this_failed :: "State \<Rightarrow> delta \<Rightarrow> object \<Rightarrow> object \<Rightarrow> settled \<times> object \<times> object" where
  "this_failed st d ctx buf =
     (case map_of (actions st) ''failed'' of
        Some h \<Rightarrow>
          (case h d ctx buf of
             (Threw e, c, b) \<Rightarrow> (Rejected e, c, b)
           | (Returned res, c, b) \<Rightarrow> (Resolved res, c, b))
      | None \<Rightarrow> (Resolved (Some (State_failed st d ctx buf)), ctx, buf))"

text \<open>
  \<open>State.transit\<close>:
  \<open>(this[delta.action] && await this[delta.action](delta)) || this.failed(delta)\<close>.
  When \<open>delta.action\<close> is not an own action, \<open>this[delta.action]\<close> may still be a
  member of the instance: a truthy data field is not callable (TypeError), a falsy one
  falls through to \<open>this.failed\<close>; the method \<open>failed\<close> returns the default Omega;
  \<open>cleanUp\<close> returns \<open>undefined\<close> and falls through.  Calling any other inherited
  member with the delta is not modelled.
\<close>

definition State_transit :: "State \<Rightarrow> delta \<Rightarrow> object \<Rightarrow> object \<Rightarrow> settled \<times> object \<times> object" where
  "State_transit st d ctx buf =
     (case map_of (actions st) (action d) of
        Some h \<Rightarrow>
          (case h d ctx buf of
             (Threw e, c, b) \<Rightarrow> (Rejected e, c, b)
           | (Returned (Some om), c, b) \<Rightarrow> (Resolved (Some om), c, b)
           | (Returned None, c, b) \<Rightarrow> this_failed st d c b)
      | None \<Rightarrow>
          if action d \<in> set State_fields then
            (if field_truthy st (action d) then (Rejected TypeError, ctx, buf)
             else this_failed st d ctx buf)
          else if action d = ''failed'' then (Resolved (Some (State_failed st d ctx buf)), ctx, buf)
          else if action d = ''cleanUp'' then this_failed st d ctx buf
          else if action d \<in> set State_prototype \<or> action d \<in> set Object_prototype then
            (NotModelled, ctx, buf)
          else this_failed st d ctx buf)"

text \<open>
  \<open>State.transit\<close> in its two turns.  The first runs when the method is called.  An
  own action is called and the method is suspended at its \<open>await\<close>, on what the
  handler gave (\<open>Awaits\<close>); so it is on the Omega of the inherited method \<open>failed\<close>
  and on the \<open>undefined\<close> of \<open>cleanUp\<close>.  When \<open>this[delta.action]\<close> is falsy the
  method calls \<open>this.failed(delta)\<close> at once and returns, and when it is a truthy data
  field the call of it raises at once: the promise of \<open>State.transit\<close> is then settled
  without a suspension (\<open>Settles\<close>).  The second turn resumes after the \<open>await\<close>: a
  falsy value falls through to \<open>this.failed(delta)\<close>, which runs then.
\<close>

datatype start = Awaits outcome | Settles settled | Stuck

definition State_transit_begin :: "State \<Rightarrow> delta \<Rightarrow> object \<Rightarrow> object \<Rightarrow> start \<times> object \<times> object" where
  "State_transit_begin st d ctx buf =
     (case map_of (actions st) (action d) of
        Some h \<Rightarrow> (case h d ctx buf of (out, c, b) \<Rightarrow> (Awaits out, c, b))
      | None \<Rightarrow>
          if action d \<in> set State_fields then
            (if field_truthy st (action d) then (Settles (Rejected TypeError), ctx, buf)
             else (case this_failed st d ctx buf of (s, c, b) \<Rightarrow> (Settles s, c, b)))
          else if action d = ''failed'' then
            (Awaits (Returned (Some (State_failed st d ctx buf))), ctx, buf)
          else if action d = ''cleanUp'' then (Awaits (Returned None), ctx, buf)
          else if action d \<in> set State_prototype \<or> action d \<in> set Object_prototype then
            (Stuck, ctx, buf)
          else (case this_failed st d ctx buf of (s, c, b) \<Rightarrow> (Settles s, c, b)))"

definition State_transit_resume ::
  "State \<Rightarrow> delta \<Rightarrow> outcome \<Rightarrow> object \<Rightarrow> object \<Rightarrow> settled \<times> object \<times> object" where
  "State_transit_resume st d out ctx buf =
     (case out of
        Threw e \<Rightarrow> (Rejected e, ctx, buf)
      | Returned (Some om) \<Rightarrow> (Resolved (Some om), ctx, buf)
      | Returned None \<Rightarrow> this_failed st d ctx buf)"

subsection \<open>The built-in failed State\<close>

text \<open>
  The two handlers \<open>createAutomata\<close> gives the State \<open>"failed"\<close> (lines 175 to 192).
  Both end in a call of \<open>omega(...)\<close>, and no binding named \<open>omega\<close> is in scope there
  (the factory method is \<open>createOmega\<close>, reached as \<open>Appomata.createOmega\<close>), so the
  call raises a ReferenceError when the callee is evaluated, before its arguments are.
  \<open>failed\<close> has by then stored \<open>{message: input.message, from: input.from}\<close> in
  \<open>buffer.failedOutput\<close>, unless reading \<open>input.message\<close> raised first.
\<close>

definition failed_action :: handler where
  "failed_action d ctx buf =
     (case get_prop (input d) ''message'' of
        Inl e \<Rightarrow> (Threw e, ctx, buf)
      | Inr m \<Rightarrow>
          (case get_prop (input d) ''from'' of
             Inl e \<Rightarrow> (Threw e, ctx, buf)
           | Inr f \<Rightarrow>
               (Threw ReferenceError, ctx,
                js_put buf ''failedOutput'' (JObj [(''message'', m), (''from'', f)]))))"

definition back_action :: handler where
  "back_action d ctx buf = (Threw ReferenceError, ctx, buf)"

definition failed_State :: State where
  "failed_State =
     State_new ''failed'' (JObj []) [(''failed'', failed_action), (''back'', back_action)] []"

subsection \<open>Automata objects, listeners and the closure state\<close>

text \<open>
  \<open>now\<close> is \<open>null\<close> until \<open>init\<close>; afterwards it holds whatever a lookup in the
  \<open>states\<close> table gave: a State, \<open>undefined\<close> (again \<open>Unset\<close>), or the member of
  \<open>Object.prototype\<close> inherited under the key (\<open>Alien key\<close>).
\<close>

datatype cur = Unset | Cur State | Alien string

record Automata =
  name :: string
  buffer :: object
  "context" :: object
  now :: cur
  initialState :: "string option"

text \<open>
  An object passed to \<open>connect\<close>; \<open>onTransition\<close> tells whether it has that method
  (instances of the class \<open>App\<close> do).
\<close>

record App =
  name :: string
  onTransition :: bool

text \<open>
  The subscribers of \<open>automataEventBus\<close>: the closure \<open>createAutomata\<close> subscribes
  for the automaton of the given name (lines 164 to 169), or any other listener,
  identified by a number.  A listener is taken to return normally; what it does is
  recorded as an effect.
\<close>

datatype listener = NotifyConnectedApps string | External nat

datatype payload =
    LoadedDelta delta object object
  | TransitionOutputData string delta omega

text \<open>
  The observable effects, in the order they happen: an \<open>emit\<close> on
  \<open>automataEventBus\<close>, the call of an external listener, the call of an app's
  \<open>onTransition\<close>, and the call of a State's \<open>cleanUp\<close> hook.
\<close>

datatype effect =
    Emitted string payload
  | Delivered nat string payload
  | AppOnTransition App payload
  | CleanUp string

text \<open>
  A transit that was started and is suspended: at the \<open>await\<close> of \<open>State.transit\<close>,
  on the promise of the handler (with the State that is \<open>this\<close> there, the loaded
  delta, and what that promise settles with), or, once \<open>State.transit\<close> has settled,
  at the \<open>await\<close> of \<open>Automata.transit\<close> only.  The number is the Automata object.
\<close>

datatype suspended =
    AwaitsHandler nat State delta outcome
  | AwaitsState nat delta settled

fun automaton_of :: "suspended \<Rightarrow> nat" where
  "automaton_of (AwaitsHandler r st d out) = r"
| "automaton_of (AwaitsState r d s) = r"

record world =
  allTomata :: "(string \<times> nat) list"
  connectedApps :: "(string \<times> App list) list"
  names :: "string list"
  states :: "(string \<times> State) list"
  automataEventBus :: "(string \<times> listener) list"
  appEventBus :: "(string \<times> nat) list"
  heap :: "nat \<Rightarrow> Automata"
  fresh :: nat
  trace :: "effect list"
  pending :: "suspended list"

definition blank :: Automata where
  "blank = \<lparr> Automata.name = [], buffer = [], Automata.context = [], now = Unset,
             initialState = None \<rparr>"

text \<open>
  The module just loaded: empty registries, no Automata object allocated, no transit
  suspended.
\<close>

definition world0 :: world where
  "world0 = \<lparr> allTomata = [], connectedApps = [], names = [], world.states = [],
              automataEventBus = [], appEventBus = [], heap = (\<lambda>r. blank), fresh = 0,
              trace = [], pending = [] \<rparr>"

definition store :: "world \<Rightarrow> nat \<Rightarrow> Automata \<Rightarrow> world" where
  "store w r a = w\<lparr> heap := (heap w)(r := a) \<rparr>"

definition log :: "effect \<Rightarrow> world \<Rightarrow> world" where
  "log e w = w\<lparr> trace := trace w @ [e] \<rparr>"

subsection \<open>The event bus\<close>

text \<open>
  Modelled from the spec: \<open>EventBus\<close> is imported from \<open>./helpers\<close>, which is not
  part of the sources ("the publish/subscribe bus implementation itself (used, not
  built here)").  \<open>on(event, listener)\<close> subscribes the listener to the event, and
  \<open>emit(event, payload)\<close> calls the listeners subscribed to the event, in the order
  they subscribed.
\<close>

definition EventBus_on :: "(string \<times> 'l) list \<Rightarrow> string \<Rightarrow> 'l \<Rightarrow> (string \<times> 'l) list" where
  "EventBus_on bus ev l = bus @ [(ev, l)]"

definition EventBus_listeners :: "(string \<times> 'l) list \<Rightarrow> string \<Rightarrow> 'l list" where
  "EventBus_listeners bus ev = map snd (filter (\<lambda>(e, l). e = ev) bus)"

text \<open>
  Calling a listener.  The closure of \<open>createAutomata\<close> calls \<open>onTransition\<close> on each
  app connected to its automaton that has the method; \<open>createAutomata\<close> creates
  \<open>connectedApps[name]\<close> before it subscribes the closure, so the entry is an own one.
\<close>

fun call_listener :: "string \<Rightarrow> payload \<Rightarrow> world \<Rightarrow> listener \<Rightarrow> world" where
  "call_listener ev p w (External n) = log (Delivered n ev p) w"
| "call_listener ev p w (NotifyConnectedApps nm) =
     (case js_get (connectedApps w) nm of
        Own apps \<Rightarrow>
          foldl (\<lambda>w' app. if onTransition app then log (AppOnTransition app p) w' else w') w apps
      | Inherited \<Rightarrow> w
      | Missing \<Rightarrow> w)"

text \<open>
  Modelled from the spec: \<open>emit\<close> of the bus (\<open>./helpers\<close> is not part of the
  sources), here for \<open>automataEventBus\<close>: the emission is recorded and the listeners
  subscribed to the event are called in the order they subscribed.
\<close>

definition emit :: "world \<Rightarrow> string \<Rightarrow> payload \<Rightarrow> world" where
  "emit w ev p =
     foldl (call_listener ev p) (log (Emitted ev p) w)
       (EventBus_listeners (automataEventBus w) ev)"

subsection \<open>The class Automata\<close>

text \<open>
  The constructor.  \<open>states.forEach(this.addState)\<close> passes \<open>addState\<close> detached from
  the instance, so inside it \<open>this\<close> is \<open>undefined\<close>: for a listed State whose name
  is not in the table yet, \<open>state.automata = this.name\<close> raises a TypeError; for the
  others \<open>addState\<close> does nothing.  A constructor that returns has allocated the
  object, with \<open>now = null\<close>.
\<close>

definition Automata_new ::
  "world \<Rightarrow> string \<Rightarrow> State list \<Rightarrow> object \<Rightarrow> object \<Rightarrow> (error + nat) \<times> world" where
  "Automata_new w nm sts ctx buf =
     (if list_all (\<lambda>st. registered (states w) (State.name st)) sts then
        (Inr (fresh w),
         (store w (fresh w)
            \<lparr> Automata.name = nm, buffer = buf, Automata.context = ctx, now = Unset,
              initialState = None \<rparr>)
         \<lparr> fresh := Suc (fresh w) \<rparr>)
      else (Inl TypeError, w))"

text \<open>
  \<open>this.on = automataEventBus.on; this.off = automataEventBus.on\<close> (lines 283 and
  284): both methods of every instance are the one bus's \<open>on\<close>.
\<close>

definition automataEventBus_on :: "world \<Rightarrow> string \<Rightarrow> listener \<Rightarrow> world" where
  "automataEventBus_on w ev l =
     w\<lparr> automataEventBus := EventBus_on (automataEventBus w) ev l \<rparr>"

definition Automata_on :: "world \<Rightarrow> nat \<Rightarrow> string \<Rightarrow> listener \<Rightarrow> world" where
  "Automata_on w r = automataEventBus_on w"

definition Automata_off :: "world \<Rightarrow> nat \<Rightarrow> string \<Rightarrow> listener \<Rightarrow> world" where
  "Automata_off w r = automataEventBus_on w"

definition Automata_init :: "world \<Rightarrow> nat \<Rightarrow> string \<Rightarrow> (error + unit) \<times> world" where
  "Automata_init w r initState =
     (case js_get (states w) initState of
        Own st \<Rightarrow>
          (Inr (), store w r ((heap w r)\<lparr> initialState := Some initState, now := Cur st \<rparr>))
      | Inherited \<Rightarrow>
          (Inr (), store w r ((heap w r)\<lparr> initialState := Some initState, now := Alien initState \<rparr>))
      | Missing \<Rightarrow> (Inl UnknownState, w))"

text \<open>
  \<open>addState\<close> returns the world and the State object as the call leaves it (the
  object now in the table, when it was registered).
\<close>

definition Automata_addState :: "world \<Rightarrow> nat \<Rightarrow> State \<Rightarrow> world \<times> State" where
  "Automata_addState w r st =
     (case js_get (states w) (State.name st) of
        Missing \<Rightarrow>
          (let st' = st\<lparr> State.automata := Some (Automata.name (heap w r)),
                         State.views :=
                           map (\<lambda>(k, v). (k, v\<lparr> View.automata := Some (Automata.name (heap w r)) \<rparr>))
                             (State.views st) \<rparr>
           in (w\<lparr> states := js_put (states w) (State.name st') st' \<rparr>, st'))
      | Own s \<Rightarrow> (w, st)
      | Inherited \<Rightarrow> (w, st))"

text \<open>\<open>states[omega.next] || states.init || states.failed\<close>\<close>

definition next_state :: "world \<Rightarrow> omega \<Rightarrow> cur" where
  "next_state w om =
     (case js_get (states w) (to_key (next om)) of
        Own s \<Rightarrow> Cur s
      | Inherited \<Rightarrow> Alien (to_key (next om))
      | Missing \<Rightarrow>
          (case js_get (states w) ''init'' of
             Own s \<Rightarrow> Cur s
           | Inherited \<Rightarrow> Alien ''init''
           | Missing \<Rightarrow>
               (case js_get (states w) ''failed'' of
                  Own s \<Rightarrow> Cur s
                | Inherited \<Rightarrow> Alien ''failed''
                | Missing \<Rightarrow> Unset)))"

text \<open>\<open>states.failed\<close>, which the \<open>catch\<close> block makes the current state.\<close>

definition states_failed :: "world \<Rightarrow> cur" where
  "states_failed w =
     (case js_get (states w) ''failed'' of
        Own s \<Rightarrow> Cur s
      | Inherited \<Rightarrow> Alien ''failed''
      | Missing \<Rightarrow> Unset)"

text \<open>
  The rest of \<open>transit\<close> after the \<open>try\<close> statement (lines 405 to 424), with the
  value of the local \<open>omega\<close>: \<open>None\<close> when the assignment in the \<open>try\<close> block did
  not happen or assigned \<open>undefined\<close>, in which case \<open>omega.views = ...\<close> raises a
  TypeError.  It raises one also when \<open>this.now\<close> is not a State (\<open>this.now.views\<close>
  is then read from \<open>undefined\<close>, or is \<open>undefined\<close> itself and \<open>Object.values\<close>
  rejects it), and when \<open>omega.output\<close> is a truthy primitive (a property cannot be
  created on it in strict mode).
\<close>

definition complete :: "world \<Rightarrow> nat \<Rightarrow> delta \<Rightarrow> omega option \<Rightarrow> (error + omega) \<times> world" where
  "complete w r d res =
     (case res of
        None \<Rightarrow> (Inl TypeError, w)
      | Some om \<Rightarrow>
          (case now (heap w r) of
             Cur s \<Rightarrow>
               if \<not> State_plain s then (Inl Unmodelled, w)
               else
               (case (if truthy (output om) then output om else JObj []) of
                  JObj kvs \<Rightarrow>
                    (let om' = (createOmega (next om) (output om) (Object_values (State.views s)) (JObj []))
                                 \<lparr> output :=
                                     JObj (js_put
                                             (js_put kvs ''context''
                                                (json_clone (JObj (Automata.context (heap w r)))))
                                             ''buffer'' (JObj (buffer (heap w r)))) \<rparr>;
                         p = TransitionOutputData (Automata.name (heap w r)) d om'
                     in (Inr om', emit (emit w ''dataTransition'' p) ''afterTransition'' p))
                | Undefined \<Rightarrow> (Inl TypeError, w)
                | Null \<Rightarrow> (Inl TypeError, w)
                | JStr x \<Rightarrow> (Inl TypeError, w))
           | Unset \<Rightarrow> (Inl TypeError, w)
           | Alien k \<Rightarrow> (Inl TypeError, w)))"

text \<open>
  The \<open>catch\<close> block (lines 395 to 401) followed by the rest of \<open>transit\<close>.  The call
  \<open>this.now.transit("failed", {...})\<close> passes the string \<open>"failed"\<close> as the delta:
  \<open>"failed".action\<close> is \<open>undefined\<close>, so whatever handler it reaches receives a
  string that carries neither the context nor the buffer, and the promise it returns
  is dropped.  The call therefore changes nothing the embedding tracks.
\<close>

definition catch_block ::
  "world \<Rightarrow> nat \<Rightarrow> State \<Rightarrow> delta \<Rightarrow> object \<Rightarrow> object \<Rightarrow> (error + omega) \<times> world" where
  "catch_block w r st d c b =
     (let w1 = emit w ''failedTransition'' (LoadedDelta d c b);
          w2 = log (CleanUp (State.name st)) w1;
          w3 = store w2 r ((heap w2 r)\<lparr> Automata.context := c, buffer := b, now := states_failed w2 \<rparr>)
      in complete w3 r d None)"

text \<open>The name a member of \<open>Object.prototype\<close> reports as \<open>this.now.name\<close>.\<close>

definition alien_name :: "string \<Rightarrow> jsval" where
  "alien_name k =
     (if k = ''__proto__'' then Undefined
      else if k = ''constructor'' then JStr ''Object''
      else JStr k)"

text \<open>
  \<open>Automata.transit\<close>.  When \<open>this.now\<close> is an inherited member, it has no
  \<open>transit\<close> method: the call in the \<open>try\<close> block raises a TypeError, and so does the
  one in the \<open>catch\<close> block, after \<open>failedTransition\<close> was emitted.
  When the promise of \<open>State.transit\<close> resolves with a falsy value, \<open>cleanUp\<close> runs
  and reading \<open>omega.next\<close> raises inside the \<open>try\<close> block.
\<close>

definition Automata_transit :: "world \<Rightarrow> nat \<Rightarrow> delta \<Rightarrow> (error + omega) \<times> world" where
  "Automata_transit w r delta0 =
     (case now (heap w r) of
        Unset \<Rightarrow> (Inl NotInitialized, w)
      | Alien k \<Rightarrow>
          (let d = delta0\<lparr> from := alien_name k \<rparr>;
               p = LoadedDelta d (Automata.context (heap w r)) (buffer (heap w r))
           in (Inl TypeError, emit (emit w ''beforeTransition'' p) ''failedTransition'' p))
      | Cur st \<Rightarrow>
          if \<not> State_plain st then (Inl Unmodelled, w)
          else
          (let d = delta0\<lparr> from := JStr (State.name st) \<rparr>;
               w1 = emit w ''beforeTransition''
                      (LoadedDelta d (Automata.context (heap w r)) (buffer (heap w r)))
           in case State_transit st d (Automata.context (heap w r)) (buffer (heap w r)) of
                (NotModelled, c, b) \<Rightarrow> (Inl Unmodelled, w1)
              | (Rejected e, c, b) \<Rightarrow> catch_block w1 r st d c b
              | (Resolved None, c, b) \<Rightarrow>
                  catch_block (log (CleanUp (State.name st)) w1) r st d c b
              | (Resolved (Some om), c, b) \<Rightarrow>
                  (let w2 = log (CleanUp (State.name st)) w1;
                       w3 = store w2 r
                              ((heap w2 r)\<lparr> Automata.context := c, buffer := b,
                                             now := next_state w2 om \<rparr>)
                   in complete w3 r d (Some om))))"

subsection \<open>Transits that are not awaited\<close>

text \<open>
  \<open>Automata.transit\<close> up to its \<open>await\<close>, which is what a caller that does not
  await the promise sees happen: \<open>delta.from\<close> is set, \<open>beforeTransition\<close> is
  emitted, \<open>State.transit\<close> takes its first turn (the handler, if there is one, is
  called and does to the context and the buffer what it does), and the transit is
  suspended.  \<open>this.now\<close> is as it was.  With \<open>now = null\<close> the promise is rejected
  at once and nothing is suspended; with an inherited member for \<open>now\<close> the \<open>try\<close>
  and the \<open>catch\<close> block both raise before any \<open>await\<close>.
\<close>

definition Automata_transit_begin :: "world \<Rightarrow> nat \<Rightarrow> delta \<Rightarrow> (error + unit) \<times> world" where
  "Automata_transit_begin w r delta0 =
     (case now (heap w r) of
        Unset \<Rightarrow> (Inr (), w)
      | Alien k \<Rightarrow>
          (let d = delta0\<lparr> from := alien_name k \<rparr>;
               p = LoadedDelta d (Automata.context (heap w r)) (buffer (heap w r))
           in (Inr (), emit (emit w ''beforeTransition'' p) ''failedTransition'' p))
      | Cur st \<Rightarrow>
          if \<not> State_plain st then (Inl Unmodelled, w)
          else
          (let d = delta0\<lparr> from := JStr (State.name st) \<rparr>;
               w1 = emit w ''beforeTransition''
                      (LoadedDelta d (Automata.context (heap w r)) (buffer (heap w r)))
           in case State_transit_begin st d (Automata.context (heap w r)) (buffer (heap w r)) of
                (Stuck, c, b) \<Rightarrow> (Inl Unmodelled, w1)
              | (Awaits out, c, b) \<Rightarrow>
                  (Inr (),
                   (store w1 r ((heap w1 r)\<lparr> Automata.context := c, buffer := b \<rparr>))
                   \<lparr> pending := pending w1 @ [AwaitsHandler r st d out] \<rparr>)
              | (Settles s, c, b) \<Rightarrow>
                  (Inr (),
                   (store w1 r ((heap w1 r)\<lparr> Automata.context := c, buffer := b \<rparr>))
                   \<lparr> pending := pending w1 @ [AwaitsState r d s] \<rparr>)))"

text \<open>
  \<open>Automata.transit\<close> from its \<open>await\<close> on, with what the promise of
  \<open>State.transit\<close> settled with: the rest of the \<open>try\<close> block or the \<open>catch\<close>
  block, then the rest of the method, in one turn (there is no other \<open>await\<close>).
  \<open>this.now\<close> is read when the turn is taken.  When it is not a State then,
  \<open>this.now.cleanUp()\<close> raises in the \<open>try\<close> block and \<open>this.now.transit\<close> in the
  \<open>catch\<close> block, after \<open>failedTransition\<close> was emitted.
\<close>

definition Automata_transit_resume ::
  "world \<Rightarrow> nat \<Rightarrow> delta \<Rightarrow> settled \<Rightarrow> (error + omega) \<times> world" where
  "Automata_transit_resume w r d s =
     (case now (heap w r) of
        Cur st \<Rightarrow>
          if \<not> State_plain st then (Inl Unmodelled, w)
          else
            (case s of
               NotModelled \<Rightarrow> (Inl Unmodelled, w)
             | Rejected e \<Rightarrow>
                 catch_block w r st d (Automata.context (heap w r)) (buffer (heap w r))
             | Resolved None \<Rightarrow>
                 catch_block (log (CleanUp (State.name st)) w) r st d
                   (Automata.context (heap w r)) (buffer (heap w r))
             | Resolved (Some om) \<Rightarrow>
                 (let w2 = log (CleanUp (State.name st)) w;
                      w3 = store w2 r ((heap w2 r)\<lparr> now := next_state w2 om \<rparr>)
                  in complete w3 r d (Some om)))
      | Unset \<Rightarrow>
          (Inl TypeError,
           emit w ''failedTransition''
             (LoadedDelta d (Automata.context (heap w r)) (buffer (heap w r))))
      | Alien k \<Rightarrow>
          (Inl TypeError,
           emit w ''failedTransition''
             (LoadedDelta d (Automata.context (heap w r)) (buffer (heap w r)))))"

text \<open>
  One turn of a suspended transit.  A transit suspended on its handler resumes in
  \<open>State.transit\<close>, whose promise then settles; the transit stays suspended in
  \<open>Automata.transit\<close>.  A transit suspended there runs to its end; the promise it
  settles is the one \<open>tryTransit\<close> dropped.
\<close>

fun turn :: "suspended \<Rightarrow> world \<Rightarrow> suspended option \<times> world" where
  "turn (AwaitsHandler r st d out) w =
     (case State_transit_resume st d out (Automata.context (heap w r)) (buffer (heap w r)) of
        (s, c, b) \<Rightarrow>
          (Some (AwaitsState r d s),
           store w r ((heap w r)\<lparr> Automata.context := c, buffer := b \<rparr>)))"
| "turn (AwaitsState r d s) w = (None, snd (Automata_transit_resume w r d s))"

text \<open>The \<open>i\<close>-th suspended transit takes its next turn.\<close>

definition resume :: "nat \<Rightarrow> world \<Rightarrow> world" where
  "resume i w =
     (if i < length (pending w) then
        (case turn (pending w ! i) w of
           (nxt, w') \<Rightarrow>
             w'\<lparr> pending := take i (pending w)
                              @ (case nxt of Some it \<Rightarrow> [it] | None \<Rightarrow> [])
                              @ drop (Suc i) (pending w) \<rparr>)
      else w)"

text \<open>
  \<open>settles w w'\<close>: from \<open>w\<close> the suspended transits take their turns, one at a time
  and in any order, until none is suspended; \<open>w'\<close> is the world then.
\<close>

inductive settles :: "world \<Rightarrow> world \<Rightarrow> bool" where
  rest: "pending w = [] \<Longrightarrow> settles w w"
| step: "i < length (pending w) \<Longrightarrow> settles (resume i w) w' \<Longrightarrow> settles w w'"

text \<open>
  \<open>tryTransit\<close>.  \<open>this.now[action]\<close> raises when \<open>now\<close> is \<open>null\<close>.  The promise
  of \<open>this.transit(...)\<close> is not awaited: \<open>true\<close> is returned as soon as the transit
  is suspended, whatever becomes of it.
\<close>

definition Automata_tryTransit :: "world \<Rightarrow> nat \<Rightarrow> jsval \<Rightarrow> string \<Rightarrow> (error + bool) \<times> world" where
  "Automata_tryTransit w r inp act =
     (case now (heap w r) of
        Unset \<Rightarrow> (Inl TypeError, w)
      | Alien k \<Rightarrow> (Inl Unmodelled, w)
      | Cur st \<Rightarrow>
          if has_member st act then
            (case Automata_transit_begin w r (createDelta act inp (JStr [])) of
               (Inl e, w') \<Rightarrow> (Inl e, w')
             | (Inr u, w') \<Rightarrow> (Inr True, w'))
          else (Inr False, w))"

subsection \<open>The factory Appomata\<close>

text \<open>
  \<open>createView\<close>.  \<open>render\<close> is \<open>None\<close> when the caller passed none
  (\<open>undefined\<close>); the View keeps \<open>automata\<close> only when it is truthy.  Nothing in
  the module adds to the set \<open>names\<close>.
\<close>

definition createView ::
  "world \<Rightarrow> string \<Rightarrow> 'r option \<Rightarrow> string option \<Rightarrow> (error + View) \<times> world" where
  "createView w nm render aut =
     (case assert (nm \<notin> set (names w)) ''Given name already assigned to another view'' of
        Inl e \<Rightarrow> (Inl e, w)
      | Inr u \<Rightarrow>
          (case assert (\<not> Option.is_none render) ''No render function is passed'' of
             Inl e \<Rightarrow> (Inl e, w)
           | Inr u' \<Rightarrow>
               (Inr \<lparr> View.name = nm, View.states = [], automatas = [],
                      View.automata = (case aut of Some a \<Rightarrow> if a \<noteq> [] then Some a else None
                                       | None \<Rightarrow> None) \<rparr>,
                w)))"

definition createState :: "string \<Rightarrow> jsval \<Rightarrow> (string \<times> handler) list \<Rightarrow> State" where
  "createState n l acts = State_new n l acts []"

text \<open>
  The loop of \<open>View.transit\<close> (lines 103 to 112): every target is asked, and
  \<open>transited\<close> is assigned the answer of each in turn.  An exception of
  \<open>tryTransit\<close> leaves the loop.  The transits the targets start are suspended when
  the loop ends.
\<close>

fun forEach_tryTransit ::
  "world \<Rightarrow> nat list \<Rightarrow> jsval \<Rightarrow> string \<Rightarrow> bool \<Rightarrow> (error + bool) \<times> world" where
  "forEach_tryTransit w [] inp act transited = (Inr transited, w)"
| "forEach_tryTransit w (a # rest) inp act transited =
     (case Automata_tryTransit w a inp act of
        (Inl e, w') \<Rightarrow> (Inl e, w')
      | (Inr t, w') \<Rightarrow> forEach_tryTransit w' rest inp act t)"

text \<open>
  \<open>View.transit({input, action, name = "", automata = ""})\<close>.  With a truthy
  \<open>automata || this.automata\<close> the only target is \<open>allTomata[automata]\<close>: skipped when
  \<open>undefined\<close>, and without a \<open>tryTransit\<close> method (TypeError) when it is an
  inherited member.
\<close>

definition View_transit ::
  "world \<Rightarrow> View \<Rightarrow> jsval \<Rightarrow> string \<Rightarrow> string \<Rightarrow> (error + unit) \<times> world" where
  "View_transit w v inp act aut =
     (let automata' = (if aut \<noteq> [] then Some aut else View.automata v);
          shown = (case automata' of Some a \<Rightarrow> a | None \<Rightarrow> ''undefined'');
          asked =
            (case automata' of
               None \<Rightarrow> forEach_tryTransit w (Object_values (allTomata w)) inp act False
             | Some a \<Rightarrow>
                 if a = [] then forEach_tryTransit w (Object_values (allTomata w)) inp act False
                 else
                   (case js_get (allTomata w) a of
                      Own r \<Rightarrow> forEach_tryTransit w [r] inp act False
                    | Inherited \<Rightarrow> (Inl TypeError, w)
                    | Missing \<Rightarrow> (Inr False, w)))
      in case asked of
           (Inl e, w') \<Rightarrow> (Inl e, w')
         | (Inr transited, w') \<Rightarrow>
             if transited then (Inr (), w') else (Inl (NoMatchingTransition shown act), w'))"

text \<open>
  \<open>createAutomata\<close>.  An automaton named \<open>__proto__\<close> would become the prototype of
  \<open>allTomata\<close> instead of an entry; that is not modelled.
\<close>

definition createAutomata ::
  "world \<Rightarrow> string \<Rightarrow> State list \<Rightarrow> object \<Rightarrow> object \<Rightarrow> (error + nat) \<times> world" where
  "createAutomata w nm sts ctx buf =
     (case Automata_new w nm sts ctx buf of
        (Inl e, w') \<Rightarrow> (Inl e, w')
      | (Inr r, w1) \<Rightarrow>
          if nm = ''__proto__'' then (Inl Unmodelled, w1)
          else
            (let w2 = w1\<lparr> allTomata := js_put (allTomata w1) nm r,
                          connectedApps := js_put (connectedApps w1) nm [] \<rparr>;
                 w3 = Automata_on w2 r ''afterTransition'' (NotifyConnectedApps nm)
             in (Inr r, fst (Automata_addState w3 r failed_State))))"

text \<open>\<open>Set.prototype.add\<close> on the set of connected apps.\<close>

definition Set_add :: "'a list \<Rightarrow> 'a \<Rightarrow> 'a list" where
  "Set_add xs x = (if x \<in> set xs then xs else xs @ [x])"

text \<open>
  \<open>connect({app, automatas})\<close>.  For an inherited key \<open>allTomata[f]\<close> is truthy and
  \<open>connectedApps[f]\<close> has no \<open>add\<close> method.  The back-reference \<open>app.ugly\<close> is not
  kept: no modelled operation reads it.
\<close>

fun connect :: "world \<Rightarrow> App \<Rightarrow> string list \<Rightarrow> (error + unit) \<times> world" where
  "connect w app [] = (Inr (), w)"
| "connect w app (f # fs) =
     (case js_get (allTomata w) f of
        Own r \<Rightarrow>
          (case js_get (connectedApps w) f of
             Own apps \<Rightarrow>
               connect (w\<lparr> connectedApps := js_put (connectedApps w) f (Set_add apps app) \<rparr>) app fs
           | Inherited \<Rightarrow> (Inl TypeError, w)
           | Missing \<Rightarrow> (Inl TypeError, w))
      | Inherited \<Rightarrow> (Inl TypeError, w)
      | Missing \<Rightarrow> connect w app fs)"

subsection \<open>The class App\<close>

text \<open>\<open>this.on = appEventBus.on; this.off = appEventBus.on\<close> (lines 519 and 520).\<close>

definition appEventBus_on :: "world \<Rightarrow> string \<Rightarrow> nat \<Rightarrow> world" where
  "appEventBus_on w ev l = w\<lparr> appEventBus := EventBus_on (appEventBus w) ev l \<rparr>"

definition App_on :: "world \<Rightarrow> App \<Rightarrow> string \<Rightarrow> nat \<Rightarrow> world" where
  "App_on w app = appEventBus_on w"

definition App_off :: "world \<Rightarrow> App \<Rightarrow> string \<Rightarrow> nat \<Rightarrow> world" where
  "App_off w app = appEventBus_on w"

subsection \<open>Notions used to state the properties\<close>

text \<open>The name of the State an automaton is in, when it is in one.\<close>

definition current_name :: "world \<Rightarrow> nat \<Rightarrow> string option" where
  "current_name w r =
     (case now (heap w r) of Cur s \<Rightarrow> Some (State.name s) | Unset \<Rightarrow> None | Alien k \<Rightarrow> None)"

text \<open>The \<open>next\<close> of the Omega a transit returned, when it returned one.\<close>

definition answer_next :: "error + omega \<Rightarrow> jsval option" where
  "answer_next res = (case res of Inr om \<Rightarrow> Some (next om) | Inl e \<Rightarrow> None)"

text \<open>The delta after \<open>delta.from = this.now.name\<close>.\<close>

definition stamped :: "world \<Rightarrow> nat \<Rightarrow> delta \<Rightarrow> delta" where
  "stamped w r d =
     d\<lparr> from := (case now (heap w r) of
                   Cur st \<Rightarrow> JStr (State.name st)
                 | Alien k \<Rightarrow> alien_name k
                 | Unset \<Rightarrow> from d) \<rparr>"

text \<open>The effects recorded between an earlier world and a later one.\<close>

definition since :: "world \<Rightarrow> world \<Rightarrow> effect list" where
  "since w w' = drop (length (trace w)) (trace w')"

definition traced :: "world \<Rightarrow> effect list \<Rightarrow> world" where
  "traced w es = w\<lparr> trace := trace w @ es \<rparr>"

text \<open>What calling a listener, and what an \<open>emit\<close>, adds to the trace.\<close>

fun call_effects :: "world \<Rightarrow> string \<Rightarrow> payload \<Rightarrow> listener \<Rightarrow> effect list" where
  "call_effects w ev p (External n) = [Delivered n ev p]"
| "call_effects w ev p (NotifyConnectedApps nm) =
     (case js_get (connectedApps w) nm of
        Own apps \<Rightarrow> map (\<lambda>app. AppOnTransition app p) (filter onTransition apps)
      | Inherited \<Rightarrow> []
      | Missing \<Rightarrow> [])"

definition emit_effects :: "world \<Rightarrow> string \<Rightarrow> payload \<Rightarrow> effect list" where
  "emit_effects w ev p =
     Emitted ev p # concat (map (call_effects w ev p) (EventBus_listeners (automataEventBus w) ev))"

text \<open>
  \<open>evolves w w'\<close>: the two worlds differ at most in the Automata objects, in the
  suspended transits, and by effects added to the trace; \<open>touches r w w'\<close>: at most in
  the object at \<open>r\<close> and by effects added to the trace.
\<close>

definition evolves :: "world \<Rightarrow> world \<Rightarrow> bool" where
  "evolves w w' = (\<exists>h ps es. w' = traced (w\<lparr> heap := h, pending := ps \<rparr>) es)"

definition touches :: "nat \<Rightarrow> world \<Rightarrow> world \<Rightarrow> bool" where
  "touches r w w' = (\<exists>a es. w' = traced (store w r a) es)"

text \<open>Every subscription of the earlier world is still there in the later one, in its place.\<close>

definition keeps_subscribers :: "world \<Rightarrow> world \<Rightarrow> bool" where
  "keeps_subscribers w w' =
     (prefix (automataEventBus w) (automataEventBus w') \<and> prefix (appEventBus w) (appEventBus w'))"

text \<open>
  The automaton is initialised and in a plain State; every State of the table is
  plain.
\<close>

definition in_plain_state :: "world \<Rightarrow> nat \<Rightarrow> bool" where
  "in_plain_state w r =
     (case now (heap w r) of Cur st \<Rightarrow> State_plain st | Unset \<Rightarrow> False | Alien k \<Rightarrow> False)"

definition plain_table :: "world \<Rightarrow> bool" where
  "plain_table w = list_all (\<lambda>(k, s). State_plain s) (states w)"

text \<open>An automaton accepts an action when \<open>tryTransit\<close> answers \<open>true\<close>.\<close>

definition accepts :: "world \<Rightarrow> nat \<Rightarrow> string \<Rightarrow> bool" where
  "accepts w r act =
     (case now (heap w r) of Cur st \<Rightarrow> has_member st act | Unset \<Rightarrow> False | Alien k \<Rightarrow> False)"

text \<open>
  The turns of one suspended transit, taken to its end with nothing in between: at
  most two.
\<close>

definition run :: "suspended \<Rightarrow> world \<Rightarrow> world" where
  "run it w =
     (case turn it w of
        (None, w') \<Rightarrow> w'
      | (Some it', w') \<Rightarrow> snd (turn it' w'))"

text \<open>
  The effects of the \<open>emit\<close> of \<open>beforeTransition\<close> with which automaton \<open>r\<close>
  starts a transit for the delta.
\<close>

definition before_effects :: "world \<Rightarrow> nat \<Rightarrow> delta \<Rightarrow> effect list" where
  "before_effects w r d =
     emit_effects w ''beforeTransition''
       (LoadedDelta (stamped w r d) (Automata.context (heap w r)) (buffer (heap w r)))"

subsection \<open>Example configurations\<close>

text \<open>
  The login automaton of the spec's scenarios: \<open>idle\<close> moves to \<open>authenticating\<close> on
  \<open>submit\<close>, and the handler of \<open>verify\<close> in \<open>authenticating\<close> throws
  \<open>"network error"\<close>.  \<open>stray\<close> answers with a \<open>next\<close> that names no State.
\<close>

definition network_error :: handler where
  "network_error d c b = (Threw (Raised (JStr ''network error'')), c, b)"

definition to_authenticating :: handler where
  "to_authenticating d c b =
     (Returned (Some (createOmega (JStr ''authenticating'') (JObj []) [] (JObj []))), c, b)"

definition to_nowhere :: handler where
  "to_nowhere d c b =
     (Returned (Some (createOmega (JStr ''nowhere'') (JObj []) [] (JObj []))), c, b)"

definition idle :: State where
  "idle = createState ''idle'' (JObj []) [(''submit'', to_authenticating), (''stray'', to_nowhere)]"

definition idle_again :: State where
  "idle_again = createState ''idle'' (JObj []) [(''submit'', to_nowhere)]"

definition authenticating :: State where
  "authenticating = createState ''authenticating'' (JObj []) [(''verify'', network_error)]"

text \<open>\<open>createAutomata({name: "login"})\<close>, then \<open>addState\<close> twice, then \<open>init("idle")\<close>.\<close>

definition login0 :: world where
  "login0 = snd (createAutomata world0 ''login'' [] [] [])"

definition login1 :: world where
  "login1 = fst (Automata_addState (fst (Automata_addState login0 0 idle)) 0 authenticating)"

definition login2 :: world where
  "login2 = snd (Automata_init login1 0 ''idle'')"

text \<open>After \<open>transit({action: "submit", input: {user: "a"}})\<close>.\<close>

definition login3 :: world where
  "login3 =
     snd (Automata_transit login2 0 (createDelta ''submit'' (JObj [(''user'', JStr ''a'')]) (JStr [])))"

text \<open>After \<open>transit({action: "verify", input: {}})\<close>, whose handler throws.\<close>

definition login4 :: world where
  "login4 = snd (Automata_transit login3 0 (createDelta ''verify'' (JObj []) (JStr [])))"

text \<open>
  A second automaton, \<open>cart\<close>, created after \<open>login\<close>; an app connected to \<open>login\<close>
  only; and a View bound to no automaton.  In \<open>duo_idle\<close> both automata are in
  \<open>idle\<close>; in \<open>duo_split\<close> \<open>login\<close> is in \<open>idle\<close> and \<open>cart\<close> in
  \<open>authenticating\<close>, which has no action \<open>submit\<close>.
\<close>

definition ui :: App where
  "ui = \<lparr> App.name = ''ui'', onTransition = True \<rparr>"

definition header :: View where
  "header = \<lparr> View.name = ''header'', View.states = [], automatas = [], View.automata = None \<rparr>"

definition duo0 :: world where
  "duo0 = snd (connect (snd (createAutomata login1 ''cart'' [] [] [])) ui [''login''])"

definition duo_idle :: world where
  "duo_idle = snd (Automata_init (snd (Automata_init duo0 0 ''idle'')) 1 ''idle'')"

definition duo_split :: world where
  "duo_split = snd (Automata_init (snd (Automata_init duo0 0 ''idle'')) 1 ''authenticating'')"

text \<open>
  The View asks for \<open>submit\<close> in \<open>duo_idle\<close> (\<open>duo_asked\<close> is the world when the call
  returns), and then the two suspended transits take their turns, alternately
  (\<open>duo_settled\<close>).  The same in \<open>duo_split\<close>, where only \<open>login\<close> is suspended.
\<close>

definition duo_asked :: world where
  "duo_asked = snd (View_transit duo_idle header (JObj []) ''submit'' [])"

definition duo_settled :: world where
  "duo_settled = resume 0 (resume 0 (resume 1 (resume 0 duo_asked)))"

definition split_asked :: world where
  "split_asked = snd (View_transit duo_split header (JObj []) ''submit'' [])"

definition split_settled :: world where
  "split_settled = resume 0 (resume 0 split_asked)"

text \<open>
  Two automata created in the order \<open>b\<close>, \<open>1\<close>, both in \<open>idle\<close>, and the world when
  the View's call for \<open>submit\<close> returns.
\<close>

definition numbered :: world where
  "numbered =
     snd (Automata_init
            (snd (Automata_init
                    (snd (createAutomata
                            (fst (Automata_addState (snd (createAutomata world0 ''b'' [] [] [])) 0 idle))
                            ''1'' [] [] []))
                    0 ''idle''))
            1 ''idle'')"

definition numbered_asked :: world where
  "numbered_asked = snd (View_transit numbered header (JObj []) ''submit'' [])"

section \<open>Properties\<close>

subsection \<open>Dictionaries\<close>

lemma map_of_js_put: "map_of (js_put obj k v) k' = (if k' = k then Some v else map_of obj k')"
  by (induction obj) auto

lemma js_get_put_same: "js_get (js_put obj k v) k = Own v"
  by (simp add: js_get_def map_of_js_put)

lemma js_get_put_other: "k' \<noteq> k \<Longrightarrow> js_get (js_put obj k v) k' = js_get obj k'"
  by (simp add: js_get_def map_of_js_put)

text \<open>
  The order of \<open>Object.values\<close>: \<open>"0"\<close>, \<open>"9"\<close> and \<open>"10"\<close> are array indices and
  come first, in numeric order; \<open>"b"\<close> and \<open>"01"\<close> follow in the order they were
  created.
\<close>

lemma Object_values_indices_first:
  "Object_values [(''b'', 0::nat), (''10'', 1), (''9'', 2), (''01'', 3), (''0'', 4)] = [4, 2, 1, 0, 3]"
  by code_simp

subsection \<open>What an operation leaves alone\<close>

lemma traced_nil [simp]: "traced w [] = w"
  by (simp add: traced_def)

lemma traced_traced [simp]: "traced (traced w es) es' = traced w (es @ es')"
  by (simp add: traced_def)

lemma log_traced: "log e w = traced w [e]"
  by (simp add: log_def traced_def)

lemma traced_fields [simp]:
  "allTomata (traced w es) = allTomata w"
  "connectedApps (traced w es) = connectedApps w"
  "names (traced w es) = names w"
  "states (traced w es) = states w"
  "automataEventBus (traced w es) = automataEventBus w"
  "appEventBus (traced w es) = appEventBus w"
  "heap (traced w es) = heap w"
  "fresh (traced w es) = fresh w"
  "trace (traced w es) = trace w @ es"
  "pending (traced w es) = pending w"
  by (simp_all add: traced_def)

lemma store_fields [simp]:
  "allTomata (store w r a) = allTomata w"
  "connectedApps (store w r a) = connectedApps w"
  "names (store w r a) = names w"
  "states (store w r a) = states w"
  "automataEventBus (store w r a) = automataEventBus w"
  "appEventBus (store w r a) = appEventBus w"
  "heap (store w r a) = (heap w)(r := a)"
  "fresh (store w r a) = fresh w"
  "trace (store w r a) = trace w"
  "pending (store w r a) = pending w"
  by (simp_all add: store_def)

lemma store_traced: "store (traced w es) r a = traced (store w r a) es"
  by (simp add: store_def traced_def)

lemma store_store [simp]: "store (store w r a) r a' = store w r a'"
  by (simp add: store_def)

lemma store_same [simp]: "store w r (heap w r) = w"
  by (simp add: store_def)

lemma since_traced [simp]: "since w (traced w es) = es"
  by (simp add: since_def)

lemma since_traced_store [simp]: "since w (traced (store w r a) es) = es"
  by (simp add: since_def)

text \<open>The effects of a listener depend on the connected apps only.\<close>

lemma call_effects_frame [simp]:
  "call_effects (traced w es) ev p = call_effects w ev p"
  "call_effects (store w r a) ev p = call_effects w ev p"
proof -
  have "call_effects (traced w es) ev p l = call_effects w ev p l" for l by (cases l) simp_all
  then show "call_effects (traced w es) ev p = call_effects w ev p" by (intro ext)
  have "call_effects (store w r a) ev p l = call_effects w ev p l" for l by (cases l) simp_all
  then show "call_effects (store w r a) ev p = call_effects w ev p" by (intro ext)
qed

lemma emit_effects_frame [simp]:
  "emit_effects (traced w es) ev p = emit_effects w ev p"
  "emit_effects (store w r a) ev p = emit_effects w ev p"
  by (simp_all add: emit_effects_def)

lemma notify_apps_traced:
  "foldl (\<lambda>w' app. if onTransition app then log (AppOnTransition app p) w' else w') w apps
     = traced w (map (\<lambda>app. AppOnTransition app p) (filter onTransition apps))"
  by (induction apps arbitrary: w) (simp_all add: log_traced)

lemma call_listener_traced: "call_listener ev p w l = traced w (call_effects w ev p l)"
  by (cases l) (simp_all add: log_traced notify_apps_traced split: slot.splits)

lemma listeners_traced:
  "foldl (call_listener ev p) w ls = traced w (concat (map (call_effects w ev p) ls))"
  by (induction ls arbitrary: w) (simp_all add: call_listener_traced)

lemma emit_traced: "emit w ev p = traced w (emit_effects w ev p)"
  by (simp add: emit_def emit_effects_def listeners_traced log_traced)

lemma touches_refl [simp]: "touches r w w"
  unfolding touches_def by (rule exI[of _ "heap w r"], rule exI[of _ "[]"]) simp

lemma touches_trans: "touches r w w' \<Longrightarrow> touches r w' w'' \<Longrightarrow> touches r w w''"
proof -
  assume "touches r w w'" and "touches r w' w''"
  then obtain a es a' es' where "w' = traced (store w r a) es"
    and "w'' = traced (store w' r a') es'"
    unfolding touches_def by blast
  then have "w'' = traced (store w r a') (es @ es')" by (simp add: store_traced)
  then show ?thesis unfolding touches_def by blast
qed

lemma touches_traced [simp]: "touches r w (traced w es)"
  unfolding touches_def by (rule exI[of _ "heap w r"], rule exI[of _ es]) simp

lemma touches_store [simp]: "touches r w (store w r a)"
  unfolding touches_def by (rule exI[of _ a], rule exI[of _ "[]"]) simp

lemma touches_traced_store [simp]: "touches r w (traced (store w r a) es)"
  unfolding touches_def by blast

lemma touches_emit [simp]: "touches r w (emit w ev p)"
  by (simp add: emit_traced)

lemma touches_log [simp]: "touches r w (log e w)"
  by (simp add: log_traced)

lemma touches_heap: "touches r w w' \<Longrightarrow> r' \<noteq> r \<Longrightarrow> heap w' r' = heap w r'"
  unfolding touches_def by auto

lemma touches_states: "touches r w w' \<Longrightarrow> states w' = states w"
  unfolding touches_def by auto

lemma touches_evolves: "touches r w w' \<Longrightarrow> evolves w w'"
proof -
  assume "touches r w w'"
  then obtain a es where "w' = traced (store w r a) es"
    unfolding touches_def by blast
  then have "w' = traced (w\<lparr> heap := (heap w)(r := a), pending := pending w \<rparr>) es"
    by (simp add: store_def)
  then show ?thesis unfolding evolves_def by blast
qed

lemma evolves_suspend: "evolves w w' \<Longrightarrow> evolves w (w'\<lparr> pending := ps \<rparr>)"
proof -
  assume "evolves w w'"
  then obtain h ps' es where "w' = traced (w\<lparr> heap := h, pending := ps' \<rparr>) es"
    unfolding evolves_def by blast
  then have "w'\<lparr> pending := ps \<rparr> = traced (w\<lparr> heap := h, pending := ps \<rparr>) es"
    by (simp add: traced_def)
  then show ?thesis unfolding evolves_def by blast
qed

lemma evolves_refl [simp]: "evolves w w"
  unfolding evolves_def
  by (rule exI[of _ "heap w"], rule exI[of _ "pending w"], rule exI[of _ "[]"]) simp

lemma evolves_trans: "evolves w w' \<Longrightarrow> evolves w' w'' \<Longrightarrow> evolves w w''"
proof -
  assume "evolves w w'" and "evolves w' w''"
  then obtain h ps es h' ps' es' where "w' = traced (w\<lparr> heap := h, pending := ps \<rparr>) es"
    and "w'' = traced (w'\<lparr> heap := h', pending := ps' \<rparr>) es'"
    unfolding evolves_def by blast
  then have "w'' = traced (w\<lparr> heap := h', pending := ps' \<rparr>) (es @ es')"
    by (simp add: traced_def)
  then show ?thesis unfolding evolves_def by blast
qed

lemma evolves_fields:
  assumes "evolves w w'"
  shows "allTomata w' = allTomata w" "connectedApps w' = connectedApps w" "names w' = names w"
    "states w' = states w" "automataEventBus w' = automataEventBus w"
    "appEventBus w' = appEventBus w" "fresh w' = fresh w"
  using assms unfolding evolves_def traced_def by auto

text \<open>The rest of \<open>transit\<close> only emits; the \<open>catch\<close> block always ends in a TypeError.\<close>

lemma complete_traced: "\<exists>es. snd (complete w r d res) = traced w es"
  by (auto simp: complete_def Let_def emit_traced split: option.splits cur.splits jsval.splits
      intro: exI[of _ "[]"])

lemma touches_complete: "touches r w (snd (complete w r' d res))"
  using complete_traced[of w r' d res] by auto

lemma states_failed_frame [simp]:
  "states_failed (traced w es) = states_failed w"
  "states_failed (store w r a) = states_failed w"
  by (simp_all add: states_failed_def)

lemma next_state_frame [simp]:
  "next_state (traced w es) om = next_state w om"
  "next_state (store w r a) om = next_state w om"
  by (simp_all add: next_state_def cong: slot.case_cong)

lemma catch_block_eq:
  "catch_block w r st d c b =
     (Inl TypeError,
      traced
        (store w r ((heap w r)\<lparr> Automata.context := c, buffer := b, now := states_failed w \<rparr>))
        (emit_effects w ''failedTransition'' (LoadedDelta d c b) @ [CleanUp (State.name st)]))"
  by (simp add: catch_block_def Let_def complete_def emit_traced log_traced store_traced)

lemma touches_catch_block: "touches r w (snd (catch_block w r st d c b))"
  unfolding catch_block_eq touches_def by auto

lemma touches_transit: "touches r w (snd (Automata_transit w r d))"
proof (cases "now (heap w r)")
  case Unset
  then show ?thesis by (simp add: Automata_transit_def)
next
  case (Alien k)
  then show ?thesis
    by (simp add: Automata_transit_def Let_def emit_traced)
next
  case (Cur st)
  let ?d = "d\<lparr> from := JStr (State.name st) \<rparr>"
  let ?w1 = "emit w ''beforeTransition''
               (LoadedDelta ?d (Automata.context (heap w r)) (buffer (heap w r)))"
  obtain s c b where
    st: "State_transit st ?d (Automata.context (heap w r)) (buffer (heap w r)) = (s, c, b)"
    by (cases "State_transit st ?d (Automata.context (heap w r)) (buffer (heap w r))") auto
  have w1: "touches r w ?w1" by simp
  show ?thesis
  proof (cases "State_plain st")
    case False
    then show ?thesis using Cur by (simp add: Automata_transit_def)
  next
    case True
    show ?thesis
    proof (cases s)
      case NotModelled
      then show ?thesis using Cur True st w1 by (simp add: Automata_transit_def Let_def)
    next
      case (Rejected e)
      then show ?thesis using Cur True st
        by (simp add: Automata_transit_def Let_def touches_trans[OF w1 touches_catch_block])
    next
      case (Resolved res)
      show ?thesis
      proof (cases res)
        case None
        have "touches r w (log (CleanUp (State.name st)) ?w1)"
          by (rule touches_trans[OF w1 touches_log])
        then show ?thesis using Cur True st Resolved None
          by (simp add: Automata_transit_def Let_def touches_trans[OF _ touches_catch_block])
      next
        case (Some om)
        have "touches r w (store (log (CleanUp (State.name st)) ?w1) r a)" for a
          by (rule touches_trans[OF touches_trans[OF w1 touches_log] touches_store])
        then show ?thesis using Cur True st Resolved Some
          by (simp add: Automata_transit_def Let_def touches_trans[OF _ touches_complete])
      qed
    qed
  qed
qed

lemma evolves_transit_begin: "evolves w (snd (Automata_transit_begin w r d))"
proof (cases "now (heap w r)")
  case Unset
  then show ?thesis by (simp add: Automata_transit_begin_def)
next
  case (Alien k)
  have "touches r w (snd (Automata_transit_begin w r d))"
    using Alien by (simp add: Automata_transit_begin_def Let_def emit_traced)
  then show ?thesis by (rule touches_evolves)
next
  case (Cur st)
  let ?d = "d\<lparr> from := JStr (State.name st) \<rparr>"
  let ?w1 = "emit w ''beforeTransition''
               (LoadedDelta ?d (Automata.context (heap w r)) (buffer (heap w r)))"
  obtain s c b where
    st: "State_transit_begin st ?d (Automata.context (heap w r)) (buffer (heap w r)) = (s, c, b)"
    by (cases "State_transit_begin st ?d (Automata.context (heap w r)) (buffer (heap w r))") auto
  have w1: "evolves w ?w1" by (rule touches_evolves[of r]) simp
  have w2: "evolves w (store ?w1 r a)" for a
    by (rule touches_evolves[of r]) (simp add: emit_traced store_traced)
  show ?thesis
  proof (cases "State_plain st")
    case False
    then show ?thesis using Cur by (simp add: Automata_transit_begin_def)
  next
    case True
    then show ?thesis using Cur st w1 evolves_suspend[OF w2]
      by (cases s) (simp_all add: Automata_transit_begin_def Let_def)
  qed
qed

lemma evolves_tryTransit: "evolves w (snd (Automata_tryTransit w r inp act))"
proof -
  have "evolves w (snd (Automata_transit_begin w r (createDelta act inp (JStr []))))"
    by (rule evolves_transit_begin)
  then show ?thesis
    by (auto simp: Automata_tryTransit_def split: cur.splits prod.splits sum.splits)
qed

lemma evolves_forEach: "evolves w (snd (forEach_tryTransit w rs inp act t))"
proof (induction rs arbitrary: w t)
  case Nil
  show ?case by simp
next
  case (Cons r rs)
  obtain res w' where 1: "Automata_tryTransit w r inp act = (res, w')"
    by (cases "Automata_tryTransit w r inp act") auto
  then have 2: "evolves w w'"
    using evolves_tryTransit[of w r inp act] by simp
  show ?case
  proof (cases res)
    case (Inl e)
    then show ?thesis using 1 2 by simp
  next
    case (Inr t')
    then show ?thesis using 1 evolves_trans[OF 2 Cons.IH[of w' t']] by simp
  qed
qed

lemma evolves_View_transit: "evolves w (snd (View_transit w v inp act aut))"
proof -
  define automata' where "automata' = (if aut \<noteq> [] then Some aut else View.automata v)"
  define asked where "asked =
            (case automata' of
               None \<Rightarrow> forEach_tryTransit w (Object_values (allTomata w)) inp act False
             | Some a \<Rightarrow>
                 if a = [] then forEach_tryTransit w (Object_values (allTomata w)) inp act False
                 else
                   (case js_get (allTomata w) a of
                      Own r \<Rightarrow> forEach_tryTransit w [r] inp act False
                    | Inherited \<Rightarrow> (Inl TypeError, w)
                    | Missing \<Rightarrow> (Inr False, w)))"
  have a: "evolves w (snd (forEach_tryTransit w rs inp act False))" for rs
    by (rule evolves_forEach)
  have "evolves w (snd asked)"
    unfolding asked_def using a
    by (simp del: forEach_tryTransit.simps split: option.splits slot.splits)
  moreover have "snd (View_transit w v inp act aut) = snd asked"
    unfolding View_transit_def Let_def asked_def automata'_def
    by (simp split: prod.splits sum.splits)
  ultimately show ?thesis by simp
qed

lemma evolves_keeps: "evolves w w' \<Longrightarrow> keeps_subscribers w w'"
  by (simp add: keeps_subscribers_def evolves_fields)

lemma addState_fields:
  "automataEventBus (fst (Automata_addState w r st)) = automataEventBus w"
  "appEventBus (fst (Automata_addState w r st)) = appEventBus w"
  "heap (fst (Automata_addState w r st)) = heap w"
  "allTomata (fst (Automata_addState w r st)) = allTomata w"
  "connectedApps (fst (Automata_addState w r st)) = connectedApps w"
  "trace (fst (Automata_addState w r st)) = trace w"
  "names (fst (Automata_addState w r st)) = names w"
  by (simp_all add: Automata_addState_def Let_def split: slot.splits)

lemma keeps_addState: "keeps_subscribers w (fst (Automata_addState w r st))"
  by (simp add: keeps_subscribers_def addState_fields)

lemma keeps_createAutomata: "keeps_subscribers w (snd (createAutomata w nm sts ctx buf))"
  by (auto simp: keeps_subscribers_def createAutomata_def Automata_new_def Let_def
      addState_fields Automata_on_def automataEventBus_on_def EventBus_on_def)

lemma keeps_init: "keeps_subscribers w (snd (Automata_init w r k))"
  by (auto simp: Automata_init_def keeps_subscribers_def split: slot.splits)

lemma connect_buses:
  "automataEventBus (snd (connect w app fs)) = automataEventBus w \<and>
   appEventBus (snd (connect w app fs)) = appEventBus w"
  by (induction w app fs rule: connect.induct) (auto split: slot.splits)

lemma keeps_connect: "keeps_subscribers w (snd (connect w app fs))"
  by (simp add: keeps_subscribers_def connect_buses)

lemma keeps_createView: "keeps_subscribers w (snd (createView w nm render aut))"
  by (auto simp: keeps_subscribers_def createView_def split: sum.splits)

subsection \<open>Registration\<close>

text \<open>
  C5, first half, at a concrete input: the module is loaded, \<open>createView\<close> is called
  with the name \<open>header\<close> and a render function, and then called again with the same
  name.  The second call returns a View as well: \<open>names\<close> is consulted but never
  added to, so the assertion on the name cannot fail.
\<close>

theorem createView_duplicate_name_accepted:
  "fst (createView (snd (createView world0 ''header'' (Some (0::nat)) None))
          ''header'' (Some (1::nat)) None)
   = Inr \<lparr> View.name = ''header'', View.states = [], automatas = [], View.automata = None \<rparr>"
  by code_simp

text \<open>
  No call of \<open>createView\<close> changes the world; as long as \<open>names\<close> is empty, as it is
  when the module is loaded, a call with a render function succeeds whatever the name;
  and a call without a render function fails.
\<close>

lemma createView_world: "snd (createView w nm render aut) = w"
  by (simp add: createView_def split: sum.splits)

lemma createView_accepts_any_name:
  "names w = [] \<Longrightarrow> \<exists>v. fst (createView w nm (Some f) aut) = Inr v \<and> View.name v = nm"
  by (simp add: createView_def assert_def)

lemma createView_missing_render:
  "fst (createView w nm None aut) = Inl (AssertionError ''Given name already assigned to another view'')
   \<or> fst (createView w nm None aut) = Inl (AssertionError ''No render function is passed'')"
  by (simp add: createView_def assert_def)

text \<open>
  C8: \<open>addState\<close> called a second time with a State of the same name changes neither
  the world nor the State passed, and when the name was free before the first call,
  the object in the table under that name is the one the first call registered.
\<close>

theorem addState_idempotent:
  assumes "State.name s2 = State.name s1"
  shows "Automata_addState (fst (Automata_addState w r s1)) r s2
           = (fst (Automata_addState w r s1), s2)
    \<and> (\<not> registered (states w) (State.name s1) \<longrightarrow>
         js_get (states (fst (Automata_addState (fst (Automata_addState w r s1)) r s2)))
           (State.name s1)
         = Own (snd (Automata_addState w r s1)))"
  using assms
  by (auto simp: Automata_addState_def Let_def js_get_put_same registered_def split: slot.splits)

theorem addState_idempotent_witness:
  "State.name idle_again = State.name idle
   \<and> \<not> registered (states login0) (State.name idle)
   \<and> Automata_addState (fst (Automata_addState login0 0 idle)) 0 idle_again
       = (fst (Automata_addState login0 0 idle), idle_again)
   \<and> js_get (states (fst (Automata_addState (fst (Automata_addState login0 0 idle)) 0 idle_again)))
       (State.name idle)
     = Own (snd (Automata_addState login0 0 idle))
   \<and> map fst (actions (snd (Automata_addState login0 0 idle))) = [''submit'', ''stray'']
   \<and> map fst (actions idle_again) = [''submit'']"
proof -
  have h1: "State.name idle_again = State.name idle" by code_simp
  have h2: "\<not> registered (states login0) (State.name idle)" by code_simp
  have h3: "map fst (actions (snd (Automata_addState login0 0 idle))) = [''submit'', ''stray'']"
    by code_simp
  have h4: "map fst (actions idle_again) = [''submit'']" by code_simp
  from addState_idempotent[OF h1, of login0 0] h1 h2 h3 h4 show ?thesis by blast
qed

subsection \<open>Subscriptions\<close>

text \<open>
  C10: \<open>off\<close> is the same function as \<open>on\<close>, for an Automata and for an App; a call
  of \<open>off(event, handler)\<close> appends the handler to the subscribers; and every
  operation keeps every subscription there is.
\<close>

theorem off_subscribes:
  "Automata_off = Automata_on \<and> App_off = App_on
   \<and> automataEventBus (Automata_off w r ev l) = automataEventBus w @ [(ev, l)]
   \<and> appEventBus (App_off w app ev n) = appEventBus w @ [(ev, n)]
   \<and> keeps_subscribers w (Automata_on w r ev l)
   \<and> keeps_subscribers w (Automata_off w r ev l)
   \<and> keeps_subscribers w (App_on w app ev n)
   \<and> keeps_subscribers w (App_off w app ev n)
   \<and> keeps_subscribers w (snd (createAutomata w nm sts ctx buf))
   \<and> keeps_subscribers w (snd (Automata_init w r k))
   \<and> keeps_subscribers w (fst (Automata_addState w r st))
   \<and> keeps_subscribers w (snd (Automata_transit w r d))
   \<and> keeps_subscribers w (snd (Automata_tryTransit w r inp act))
   \<and> keeps_subscribers w (snd (View_transit w v inp act aut))
   \<and> keeps_subscribers w (snd (connect w app fs))
   \<and> keeps_subscribers w (snd (createView w vn render aut'))"
proof -
  have 1: "Automata_off = Automata_on"
    by (intro ext) (simp add: Automata_off_def Automata_on_def)
  have 2: "App_off = App_on"
    by (intro ext) (simp add: App_off_def App_on_def)
  have 3: "automataEventBus (Automata_off w r ev l) = automataEventBus w @ [(ev, l)]"
    by (simp add: Automata_off_def automataEventBus_on_def EventBus_on_def)
  have 4: "appEventBus (App_off w app ev n) = appEventBus w @ [(ev, n)]"
    by (simp add: App_off_def appEventBus_on_def EventBus_on_def)
  have 5: "keeps_subscribers w (Automata_off w r ev l)"
    by (simp add: keeps_subscribers_def Automata_off_def automataEventBus_on_def EventBus_on_def)
  have 6: "keeps_subscribers w (App_off w app ev n)"
    by (simp add: keeps_subscribers_def App_off_def appEventBus_on_def EventBus_on_def)
  show ?thesis
    using 1 2 3 4 5 6 keeps_createAutomata keeps_init keeps_addState
      evolves_keeps[OF touches_evolves[OF touches_transit]]
      evolves_keeps[OF evolves_tryTransit]
      evolves_keeps[OF evolves_View_transit] keeps_connect keeps_createView
    by simp
qed

subsection \<open>The transition protocol\<close>

lemma stamped_Cur: "now (heap w r) = Cur st \<Longrightarrow> stamped w r d = d\<lparr> from := JStr (State.name st) \<rparr>"
  by (simp add: stamped_def)

lemma transit_rejected:
  assumes "now (heap w r) = Cur st" and "State_plain st"
    and "State_transit st (stamped w r d) (Automata.context (heap w r)) (buffer (heap w r))
           = (Rejected e, c, b)"
  shows "Automata_transit w r d =
     (Inl TypeError,
      traced
        (store w r ((heap w r)\<lparr> Automata.context := c, buffer := b, now := states_failed w \<rparr>))
        (emit_effects w ''beforeTransition''
           (LoadedDelta (stamped w r d) (Automata.context (heap w r)) (buffer (heap w r)))
         @ emit_effects w ''failedTransition'' (LoadedDelta (stamped w r d) c b)
         @ [CleanUp (State.name st)]))"
  using assms
  by (simp add: Automata_transit_def Let_def stamped_Cur catch_block_eq emit_traced store_traced)

lemma transit_resolved:
  assumes "now (heap w r) = Cur st" and "State_plain st"
    and "State_transit st (stamped w r d) (Automata.context (heap w r)) (buffer (heap w r))
           = (Resolved (Some om), c, b)"
  shows "Automata_transit w r d =
     complete
       (traced
          (store w r ((heap w r)\<lparr> Automata.context := c, buffer := b, now := next_state w om \<rparr>))
          (emit_effects w ''beforeTransition''
             (LoadedDelta (stamped w r d) (Automata.context (heap w r)) (buffer (heap w r)))
           @ [CleanUp (State.name st)]))
       r (stamped w r d) (Some om)"
  using assms
  by (simp add: Automata_transit_def Let_def stamped_Cur emit_traced log_traced store_traced)

lemma complete_InrD:
  assumes "complete w r d res = (Inr om', w')"
  obtains om s where "res = Some om" and "now (heap w r) = Cur s" and "State_plain s"
    and "next om' = next om"
    and "w' = traced w
           (emit_effects w ''dataTransition'' (TransitionOutputData (Automata.name (heap w r)) d om')
            @ emit_effects w ''afterTransition'' (TransitionOutputData (Automata.name (heap w r)) d om'))"
  using assms
  by (auto simp: complete_def Let_def createOmega_def emit_traced
      split: option.splits cur.splits jsval.splits if_splits)

lemma transit_InrD:
  assumes "Automata_transit w r d = (Inr om, w')"
  obtains st om0 c b where "now (heap w r) = Cur st" and "State_plain st"
    and "State_transit st (stamped w r d) (Automata.context (heap w r)) (buffer (heap w r))
           = (Resolved (Some om0), c, b)"
proof (cases "now (heap w r)")
  case Unset
  then show ?thesis using assms by (simp add: Automata_transit_def)
next
  case (Alien k)
  then show ?thesis using assms by (simp add: Automata_transit_def Let_def)
next
  case (Cur st)
  have plain: "State_plain st"
    using assms Cur by (cases "State_plain st") (simp_all add: Automata_transit_def)
  obtain s c b where
    st: "State_transit st (stamped w r d) (Automata.context (heap w r)) (buffer (heap w r)) = (s, c, b)"
    by (cases "State_transit st (stamped w r d) (Automata.context (heap w r)) (buffer (heap w r))") auto
  show ?thesis
  proof (cases s)
    case NotModelled
    then show ?thesis using assms Cur plain st
      by (simp add: Automata_transit_def Let_def stamped_Cur)
  next
    case (Rejected e)
    then show ?thesis using assms transit_rejected[OF Cur plain, of d e c b] st by simp
  next
    case (Resolved res)
    show ?thesis
    proof (cases res)
      case None
      then show ?thesis using assms Cur plain st Resolved
        by (simp add: Automata_transit_def Let_def stamped_Cur catch_block_eq)
    next
      case (Some om0)
      then show ?thesis using that[OF Cur plain] st Resolved by simp
    qed
  qed
qed

text \<open>
  A handler that raises, in general: \<open>transit\<close> itself rejects with a TypeError (the
  local \<open>omega\<close> is still \<open>undefined\<close> when \<open>omega.views\<close> is assigned), the current
  state is \<open>states.failed\<close>, \<open>failedTransition\<close> was emitted, and the buffer is as
  the handler left it: nothing wrote \<open>failedOutput\<close>.
\<close>

lemma transit_handler_failure:
  assumes "now (heap w r) = Cur st" and "State_plain st"
    and "State_transit st (stamped w r d) (Automata.context (heap w r)) (buffer (heap w r))
           = (Rejected e, c, b)"
  shows "fst (Automata_transit w r d) = Inl TypeError"
    and "now (heap (snd (Automata_transit w r d)) r) = states_failed w"
    and "buffer (heap (snd (Automata_transit w r d)) r) = b"
    and "Emitted ''failedTransition'' (LoadedDelta (stamped w r d) c b)
           \<in> set (since w (snd (Automata_transit w r d)))"
  by (simp_all add: transit_rejected[OF assms] emit_effects_def)

text \<open>
  C1, at the scenario of the spec: \<open>login\<close> is in \<open>authenticating\<close> and the handler
  of \<open>verify\<close> throws \<open>"network error"\<close>.  The current state becomes \<open>failed\<close> and
  \<open>failedTransition\<close> is emitted, as the claim says; but \<open>transit\<close> rejects, and the
  buffer has no \<open>failedOutput\<close>.
\<close>

theorem handler_failure_records_nothing:
  "current_name login3 0 = Some ''authenticating''
   \<and> fst (Automata_transit login3 0 (createDelta ''verify'' (JObj []) (JStr []))) = Inl TypeError
   \<and> current_name login4 0 = Some ''failed''
   \<and> Emitted ''failedTransition''
        (LoadedDelta \<lparr> action = ''verify'', input = JObj [], from = JStr ''authenticating'' \<rparr> [] [])
      \<in> set (since login3 login4)
   \<and> map_of (buffer (heap login4 0)) ''failedOutput'' = None"
  by code_simp

text \<open>
  The handler of \<open>back\<close> raises whatever the buffer holds, so from the built-in failed
  State the action \<open>back\<close> leads to \<open>states.failed\<close> again.
\<close>

lemma failed_State_back:
  assumes "action d = ''back''"
  shows "State_transit failed_State d ctx buf = (Rejected ReferenceError, ctx, buf)"
  using assms
  by (simp add: State_transit_def failed_State_def State_new_def defineAction_def back_action_def)

lemma back_never_restores:
  assumes "now (heap w r) = Cur st" and "State_plain st"
    and "map_of (actions st) ''back'' = Some back_action"
  shows "fst (Automata_transit w r (createDelta ''back'' inp f)) = Inl TypeError"
    and "now (heap (snd (Automata_transit w r (createDelta ''back'' inp f))) r) = states_failed w"
proof -
  have "State_transit st (stamped w r (createDelta ''back'' inp f))
          (Automata.context (heap w r)) (buffer (heap w r))
        = (Rejected ReferenceError, Automata.context (heap w r), buffer (heap w r))"
    using assms(3) by (simp add: State_transit_def stamped_def createDelta_def back_action_def)
  from transit_handler_failure(1,2)[OF assms(1,2) this]
  show "fst (Automata_transit w r (createDelta ''back'' inp f)) = Inl TypeError"
    and "now (heap (snd (Automata_transit w r (createDelta ''back'' inp f))) r) = states_failed w"
    by simp_all
qed

text \<open>
  C2, continuing the scenario: \<open>login\<close> is in \<open>failed\<close> after the captured failure in
  \<open>authenticating\<close>; \<open>transit({action: "back"})\<close> rejects and leaves it in
  \<open>failed\<close>.
\<close>

theorem back_stays_in_failed:
  "current_name login3 0 = Some ''authenticating''
   \<and> current_name login4 0 = Some ''failed''
   \<and> fst (Automata_transit login4 0 (createDelta ''back'' Undefined (JStr []))) = Inl TypeError
   \<and> current_name (snd (Automata_transit login4 0 (createDelta ''back'' Undefined (JStr [])))) 0
       = Some ''failed''"
  by code_simp

text \<open>The example worlds, written out.\<close>

lemmas example_defs =
  login0_def login1_def login2_def createAutomata_def Automata_new_def Automata_on_def
  automataEventBus_on_def EventBus_on_def Automata_addState_def Automata_init_def js_get_def
  registered_def Object_prototype_def world0_def store_def Let_def failed_State_def State_new_def
  defineAction_def idle_def authenticating_def createState_def

lemma login2_states:
  "states login2 =
     [(''failed'', failed_State\<lparr> State.automata := Some ''login'' \<rparr>),
      (''idle'', idle\<lparr> State.automata := Some ''login'' \<rparr>),
      (''authenticating'', authenticating\<lparr> State.automata := Some ''login'' \<rparr>)]"
  by (simp add: example_defs)

lemma login2_heap:
  "heap login2 0 =
     \<lparr> Automata.name = ''login'', buffer = [], Automata.context = [],
       now = Cur (idle\<lparr> State.automata := Some ''login'' \<rparr>), initialState = Some ''idle'' \<rparr>"
  by (simp add: example_defs)

text \<open>
  C3 as stated fails: \<open>login\<close> was initialised with \<open>idle\<close>, the handler of \<open>stray\<close>
  resolves with \<open>next = "nowhere"\<close>, which names no registered State, and the new
  current state is \<open>failed\<close>, not the initial state.
\<close>

theorem fallback_skips_initial_state:
  "initialState (heap login2 0) = Some ''idle''
   \<and> current_name login2 0 = Some ''idle''
   \<and> \<not> registered (states login2) ''nowhere''
   \<and> answer_next (fst (Automata_transit login2 0 (createDelta ''stray'' (JObj []) (JStr []))))
       = Some (JStr ''nowhere'')
   \<and> current_name (snd (Automata_transit login2 0 (createDelta ''stray'' (JObj []) (JStr [])))) 0
       = Some ''failed''"
  by code_simp

text \<open>
  C3 as amended.  When the handler resolves with an Omega: if \<open>next\<close> names a
  registered State, that State becomes current; if it names nothing, the State
  registered under the name \<open>init\<close> does, and when there is none, the one registered
  under \<open>failed\<close>; and the \<open>cleanUp\<close> hook of the previous State has run.
\<close>

theorem transit_selects_next:
  assumes "now (heap w r) = Cur st" and "State_plain st"
    and "State_transit st (stamped w r d) (Automata.context (heap w r)) (buffer (heap w r))
           = (Resolved (Some om), c, b)"
  shows "(\<forall>s. js_get (states w) (to_key (next om)) = Own s \<longrightarrow>
            now (heap (snd (Automata_transit w r d)) r) = Cur s)
    \<and> (\<forall>s. js_get (states w) (to_key (next om)) = Missing \<longrightarrow>
            js_get (states w) ''init'' = Own s \<longrightarrow>
            now (heap (snd (Automata_transit w r d)) r) = Cur s)
    \<and> (\<forall>s. js_get (states w) (to_key (next om)) = Missing \<longrightarrow>
            js_get (states w) ''init'' = Missing \<longrightarrow>
            js_get (states w) ''failed'' = Own s \<longrightarrow>
            now (heap (snd (Automata_transit w r d)) r) = Cur s)
    \<and> CleanUp (State.name st) \<in> set (since w (snd (Automata_transit w r d)))"
proof -
  let ?W = "traced
          (store w r ((heap w r)\<lparr> Automata.context := c, buffer := b, now := next_state w om \<rparr>))
          (emit_effects w ''beforeTransition''
             (LoadedDelta (stamped w r d) (Automata.context (heap w r)) (buffer (heap w r)))
           @ [CleanUp (State.name st)])"
  have eq: "Automata_transit w r d = complete ?W r (stamped w r d) (Some om)"
    by (rule transit_resolved[OF assms])
  obtain es where es: "snd (Automata_transit w r d) = traced ?W es"
    using complete_traced[of ?W r "stamped w r d" "Some om"] eq by auto
  have now: "now (heap (snd (Automata_transit w r d)) r) = next_state w om"
    by (simp add: es)
  have "CleanUp (State.name st) \<in> set (since w (snd (Automata_transit w r d)))"
    by (simp add: es)
  then show ?thesis
    by (simp add: now next_state_def)
qed

theorem transit_selects_next_witness:
  "now (heap login2 0) = Cur (idle\<lparr> State.automata := Some ''login'' \<rparr>)
   \<and> State_plain (idle\<lparr> State.automata := Some ''login'' \<rparr>)
   \<and> State_transit (idle\<lparr> State.automata := Some ''login'' \<rparr>)
        (stamped login2 0 (createDelta ''stray'' (JObj []) (JStr [])))
        (Automata.context (heap login2 0)) (buffer (heap login2 0))
       = (Resolved (Some (createOmega (JStr ''nowhere'') (JObj []) [] (JObj []))), [], [])
   \<and> js_get (states login2) (to_key (next (createOmega (JStr ''nowhere'') (JObj []) [] (JObj [])))) = Missing
   \<and> js_get (states login2) ''init'' = Missing
   \<and> js_get (states login2) ''failed'' = Own (failed_State\<lparr> State.automata := Some ''login'' \<rparr>)
   \<and> now (heap (snd (Automata_transit login2 0 (createDelta ''stray'' (JObj []) (JStr [])))) 0)
       = Cur (failed_State\<lparr> State.automata := Some ''login'' \<rparr>)
   \<and> CleanUp (State.name (idle\<lparr> State.automata := Some ''login'' \<rparr>))
       \<in> set (since login2 (snd (Automata_transit login2 0 (createDelta ''stray'' (JObj []) (JStr [])))))"
proof -
  have h1: "now (heap login2 0) = Cur (idle\<lparr> State.automata := Some ''login'' \<rparr>)"
    by (simp add: login2_heap)
  have h0: "State_plain (idle\<lparr> State.automata := Some ''login'' \<rparr>)"
    by code_simp
  have h2: "State_transit (idle\<lparr> State.automata := Some ''login'' \<rparr>)
        (stamped login2 0 (createDelta ''stray'' (JObj []) (JStr [])))
        (Automata.context (heap login2 0)) (buffer (heap login2 0))
       = (Resolved (Some (createOmega (JStr ''nowhere'') (JObj []) [] (JObj []))), [], [])"
    by (simp add: login2_heap State_transit_def stamped_def createDelta_def idle_def createState_def
        State_new_def defineAction_def to_nowhere_def)
  have h3: "js_get (states login2) (to_key (next (createOmega (JStr ''nowhere'') (JObj []) [] (JObj [])))) = Missing"
    by (simp add: login2_states js_get_def Object_prototype_def createOmega_def)
  have h4: "js_get (states login2) ''init'' = Missing"
    by (simp add: login2_states js_get_def Object_prototype_def)
  have h5: "js_get (states login2) ''failed'' = Own (failed_State\<lparr> State.automata := Some ''login'' \<rparr>)"
    by (simp add: login2_states js_get_def)
  from transit_selects_next[OF h1 h0 h2] h0 h1 h2 h3 h4 h5 show ?thesis by blast
qed

text \<open>
  C6 as stated fails at the same input: the transit succeeds and the Omega it returns
  has \<open>next = "nowhere"\<close>, which is neither a registered State nor \<open>"failed"\<close>.
\<close>

theorem returned_next_unregistered:
  "answer_next (fst (Automata_transit login2 0 (createDelta ''stray'' (JObj []) (JStr []))))
     = Some (JStr ''nowhere'')
   \<and> \<not> registered
         (states (snd (Automata_transit login2 0 (createDelta ''stray'' (JObj []) (JStr [])))))
         ''nowhere''
   \<and> ''nowhere'' \<noteq> ''failed''"
  by code_simp

text \<open>
  C6 as amended.  After a successful transit the automaton is in a State of the table:
  the one under \<open>omega.next\<close>, or, when that names nothing, the one under \<open>init\<close>,
  or else the one under \<open>failed\<close>.  The \<open>next\<close> of the Omega returned is the one the
  State's transit resolved with, as it is.
\<close>

theorem transit_success_lands_in_table:
  assumes "fst (Automata_transit w r d) = Inr om"
  shows "(\<exists>s. now (heap (snd (Automata_transit w r d)) r) = Cur s
            \<and> (js_get (states (snd (Automata_transit w r d))) (to_key (next om)) = Own s
                \<or> js_get (states (snd (Automata_transit w r d))) (to_key (next om)) = Missing
                   \<and> (js_get (states (snd (Automata_transit w r d))) ''init'' = Own s
                       \<or> js_get (states (snd (Automata_transit w r d))) ''init'' = Missing
                          \<and> js_get (states (snd (Automata_transit w r d))) ''failed'' = Own s)))
    \<and> (\<exists>st om0 c b. now (heap w r) = Cur st
            \<and> State_transit st (stamped w r d) (Automata.context (heap w r)) (buffer (heap w r))
                = (Resolved (Some om0), c, b)
            \<and> next om = next om0)"
proof -
  obtain w' where tr: "Automata_transit w r d = (Inr om, w')"
    using assms by (cases "Automata_transit w r d") auto
  from transit_InrD[OF tr] obtain st om0 c b where cur: "now (heap w r) = Cur st"
    and plain: "State_plain st"
    and st: "State_transit st (stamped w r d) (Automata.context (heap w r)) (buffer (heap w r))
           = (Resolved (Some om0), c, b)"
    by blast
  let ?W = "traced
          (store w r ((heap w r)\<lparr> Automata.context := c, buffer := b, now := next_state w om0 \<rparr>))
          (emit_effects w ''beforeTransition''
             (LoadedDelta (stamped w r d) (Automata.context (heap w r)) (buffer (heap w r)))
           @ [CleanUp (State.name st)])"
  have eq: "complete ?W r (stamped w r d) (Some om0) = (Inr om, w')"
    using transit_resolved[OF cur plain st] tr by simp
  from complete_InrD[OF eq] obtain s es where s: "now (heap ?W r) = Cur s"
    and nx: "next om = next om0" and w': "w' = traced ?W es"
    by (metis option.inject)
  have now': "now (heap w' r) = Cur s" using s by (simp add: w')
  have sel: "next_state w om0 = Cur s" using s by simp
  have states': "states w' = states w" by (simp add: w')
  have "js_get (states w) (to_key (next om)) = Own s
          \<or> js_get (states w) (to_key (next om)) = Missing
             \<and> (js_get (states w) ''init'' = Own s
                 \<or> js_get (states w) ''init'' = Missing \<and> js_get (states w) ''failed'' = Own s)"
    using sel unfolding next_state_def nx by (auto split: slot.splits)
  then show ?thesis using now' states' cur st nx tr by auto
qed

theorem transit_success_lands_in_table_witness:
  "fst (Automata_transit login2 0 (createDelta ''stray'' (JObj []) (JStr [])))
     = Inr \<lparr> next = JStr ''nowhere'',
             output = JObj [(''context'', JObj []), (''buffer'', JObj [])],
             views = [], context = JObj [] \<rparr>
   \<and> (\<exists>s. now (heap (snd (Automata_transit login2 0 (createDelta ''stray'' (JObj []) (JStr [])))) 0) = Cur s
          \<and> js_get (states (snd (Automata_transit login2 0 (createDelta ''stray'' (JObj []) (JStr [])))))
               ''failed'' = Own s)"
proof -
  have h: "fst (Automata_transit login2 0 (createDelta ''stray'' (JObj []) (JStr [])))
     = Inr \<lparr> next = JStr ''nowhere'',
             output = JObj [(''context'', JObj []), (''buffer'', JObj [])],
             views = [], context = JObj [] \<rparr>"
    by code_simp
  have st: "states (snd (Automata_transit login2 0 (createDelta ''stray'' (JObj []) (JStr [])))) = states login2"
    by (rule touches_states[OF touches_transit])
  have n1: "js_get (states login2) ''nowhere'' \<noteq> Own s" for s
    by (simp add: login2_states js_get_def Object_prototype_def)
  have n2: "js_get (states login2) ''init'' \<noteq> Own s" for s
    by (simp add: login2_states js_get_def Object_prototype_def)
  from transit_success_lands_in_table[OF h] show ?thesis
    using h n1 n2 by (auto simp: st)
qed

subsection \<open>Dispatch inside a State\<close>

text \<open>
  C7 as stated fails.  For the State \<open>idle\<close>, \<open>name\<close> is not among the defined
  actions, but \<open>this["name"]\<close> is the State's name, a truthy string, and calling it
  raises a TypeError.  And for the State every automaton gets from \<open>createAutomata\<close>,
  the built-in failed State, \<open>foo\<close> is not among the defined actions, and
  \<open>this.failed(delta)\<close> is the State's own action \<open>failed\<close>, which raises.
\<close>

theorem unmatched_action_rejects:
  "''name'' \<notin> set (map fst (actions idle))
   \<and> State_transit idle \<lparr> action = ''name'', input = JObj [], from = JStr ''idle'' \<rparr> [] []
       = (Rejected TypeError, [], [])
   \<and> ''foo'' \<notin> set (map fst (actions failed_State))
   \<and> State_transit failed_State \<lparr> action = ''foo'', input = JObj [], from = JStr ''failed'' \<rparr> [] []
       = (Rejected ReferenceError, [],
          [(''failedOutput'', JObj [(''message'', Undefined), (''from'', Undefined)])])"
  by code_simp

text \<open>
  C7 as amended.  For a plain State with no action named \<open>failed\<close>, and a delta whose
  action is not a defined action and names no other truthy member of the State object
  (the methods \<open>failed\<close> and \<open>cleanUp\<close> apart), \<open>State.transit\<close> resolves with
  the default Omega: \<open>next = "failed"\<close>, and an output that carries the action and
  the State's name.  Neither the context nor the buffer changes.
\<close>

theorem State_transit_unmatched:
  assumes "State_plain st"
    and "action d \<notin> set (map fst (actions st))"
    and "''failed'' \<notin> set (map fst (actions st))"
    and "\<not> has_member st (action d) \<or> action d = ''failed'' \<or> action d = ''cleanUp''"
  shows "State_transit st d ctx buf = (Resolved (Some (State_failed st d ctx buf)), ctx, buf)
    \<and> next (State_failed st d ctx buf) = JStr ''failed''
    \<and> get_prop (output (State_failed st d ctx buf)) ''action'' = Inr (JStr (action d))
    \<and> get_prop (output (State_failed st d ctx buf)) ''name'' = Inr (JStr (State.name st))"
proof -
  have a: "map_of (actions st) (action d) = None"
    using assms(2) by (simp add: map_of_eq_None_iff)
  have f: "map_of (actions st) ''failed'' = None"
    using assms(3) by (simp add: map_of_eq_None_iff)
  have fb: "this_failed st d ctx buf = (Resolved (Some (State_failed st d ctx buf)), ctx, buf)"
    by (simp add: this_failed_def f)
  have "State_transit st d ctx buf = (Resolved (Some (State_failed st d ctx buf)), ctx, buf)"
  proof (cases "action d = ''failed'' \<or> action d = ''cleanUp''")
    case True
    then show ?thesis using a fb
      by (auto simp: State_transit_def State_fields_def)
  next
    case False
    then have no: "\<not> has_member st (action d)" using assms(4) by blast
    show ?thesis
    proof (cases "action d \<in> set State_fields")
      case True
      then have "\<not> field_truthy st (action d)"
        using no a by (simp add: has_member_def del: field_truthy.simps)
      then show ?thesis using True a fb
        by (simp add: State_transit_def del: field_truthy.simps)
    next
      case notfield: False
      then have "\<not> (action d \<in> set State_prototype \<or> action d \<in> set Object_prototype)"
        using no a by (simp add: has_member_def del: field_truthy.simps)
      then show ?thesis using notfield False a fb
        by (simp add: State_transit_def del: field_truthy.simps)
    qed
  qed
  then show ?thesis
    by (simp add: State_failed_def createOmega_def)
qed

theorem State_transit_unmatched_witness:
  "State_plain idle
   \<and> ''logout'' \<notin> set (map fst (actions idle))
   \<and> ''failed'' \<notin> set (map fst (actions idle))
   \<and> \<not> has_member idle ''logout''
   \<and> State_transit idle \<lparr> action = ''logout'', input = JObj [], from = JStr ''idle'' \<rparr> [] []
       = (Resolved (Some (State_failed idle
             \<lparr> action = ''logout'', input = JObj [], from = JStr ''idle'' \<rparr> [] [])), [], [])
   \<and> next (State_failed idle \<lparr> action = ''logout'', input = JObj [], from = JStr ''idle'' \<rparr> [] [])
       = JStr ''failed''"
proof -
  have h0: "State_plain idle" by code_simp
  have h1: "action \<lparr> action = ''logout'', input = JObj [], from = JStr ''idle'' \<rparr>
              \<notin> set (map fst (actions idle))" by code_simp
  have h2: "''failed'' \<notin> set (map fst (actions idle))" by code_simp
  have h3: "\<not> has_member idle (action \<lparr> action = ''logout'', input = JObj [], from = JStr ''idle'' \<rparr>)"
    by code_simp
  then have h3': "\<not> has_member idle (action \<lparr> action = ''logout'', input = JObj [], from = JStr ''idle'' \<rparr>)
      \<or> action \<lparr> action = ''logout'', input = JObj [], from = JStr ''idle'' \<rparr> = ''failed''
      \<or> action \<lparr> action = ''logout'', input = JObj [], from = JStr ''idle'' \<rparr> = ''cleanUp''"
    by blast
  from State_transit_unmatched[OF h0 h1 h2 h3', of "[]" "[]"] h0 h1 h2 h3 show ?thesis by simp
qed

subsection \<open>One bus for every automaton\<close>

lemma Automata_on_fields [simp]:
  "heap (Automata_on w a ev l) = heap w"
  "trace (Automata_on w a ev l) = trace w"
  "connectedApps (Automata_on w a ev l) = connectedApps w"
  "states (Automata_on w a ev l) = states w"
  "automataEventBus (Automata_on w a ev l) = automataEventBus w @ [(ev, l)]"
  by (simp_all add: Automata_on_def automataEventBus_on_def EventBus_on_def)

lemma emit_effects_listener:
  "(ev, l) \<in> set (automataEventBus w) \<Longrightarrow> set (call_effects w ev p l) \<subseteq> set (emit_effects w ev p)"
  by (force simp: emit_effects_def EventBus_listeners_def)

text \<open>A successful transit ends with the \<open>emit\<close> of \<open>afterTransition\<close>.\<close>

lemma transit_success_effects:
  assumes "Automata_transit w b d = (Inr om, w')"
  shows "\<exists>es. since w w' = es @ emit_effects w ''afterTransition''
                  (TransitionOutputData (Automata.name (heap w b)) (stamped w b d) om)"
proof -
  from transit_InrD[OF assms] obtain st om0 c bf where cur: "now (heap w b) = Cur st"
    and plain: "State_plain st"
    and st: "State_transit st (stamped w b d) (Automata.context (heap w b)) (buffer (heap w b))
           = (Resolved (Some om0), c, bf)"
    by blast
  let ?W = "traced
          (store w b ((heap w b)\<lparr> Automata.context := c, buffer := bf, now := next_state w om0 \<rparr>))
          (emit_effects w ''beforeTransition''
             (LoadedDelta (stamped w b d) (Automata.context (heap w b)) (buffer (heap w b)))
           @ [CleanUp (State.name st)])"
  have eq: "complete ?W b (stamped w b d) (Some om0) = (Inr om, w')"
    using transit_resolved[OF cur plain st] assms by simp
  from complete_InrD[OF eq] have "w' = traced ?W
           (emit_effects ?W ''dataTransition''
              (TransitionOutputData (Automata.name (heap ?W b)) (stamped w b d) om)
            @ emit_effects ?W ''afterTransition''
                (TransitionOutputData (Automata.name (heap ?W b)) (stamped w b d) om))"
    by blast
  then show ?thesis by (simp add: since_def)
qed

lemma delivered_after_transit:
  assumes "Automata_transit w b d = (Inr om, w')"
    and "(''afterTransition'', l) \<in> set (automataEventBus w)"
  shows "set (call_effects w ''afterTransition''
                (TransitionOutputData (Automata.name (heap w b)) (stamped w b d) om) l)
           \<subseteq> set (since w w')"
  using transit_success_effects[OF assms(1)] emit_effects_listener[OF assms(2)] by fastforce

text \<open>
  C9: a listener subscribed to \<open>afterTransition\<close> through automaton \<open>a\<close> is called
  when any automaton \<open>b\<close> completes a transition, with \<open>b\<close>'s transition; and so is
  \<open>onTransition\<close> of every app connected to an automaton whose \<open>createAutomata\<close>
  closure is subscribed, whichever automaton made the transition.
\<close>

theorem shared_bus_notifies:
  assumes "fst (Automata_transit (Automata_on w a ''afterTransition'' (External n)) b d) = Inr om"
  shows "Delivered n ''afterTransition''
           (TransitionOutputData (Automata.name (heap w b)) (stamped w b d) om)
         \<in> set (since w (snd (Automata_transit (Automata_on w a ''afterTransition'' (External n)) b d)))
    \<and> (\<forall>nm apps app.
          (''afterTransition'', NotifyConnectedApps nm) \<in> set (automataEventBus w) \<longrightarrow>
          js_get (connectedApps w) nm = Own apps \<longrightarrow> app \<in> set apps \<longrightarrow> onTransition app \<longrightarrow>
          AppOnTransition app (TransitionOutputData (Automata.name (heap w b)) (stamped w b d) om)
          \<in> set (since w (snd (Automata_transit (Automata_on w a ''afterTransition'' (External n)) b d))))"
proof -
  let ?w1 = "Automata_on w a ''afterTransition'' (External n)"
  let ?p = "TransitionOutputData (Automata.name (heap w b)) (stamped w b d) om"
  obtain w' where tr: "Automata_transit ?w1 b d = (Inr om, w')"
    using assms by (cases "Automata_transit ?w1 b d") auto
  have since: "since ?w1 w' = since w w'" by (simp add: since_def)
  have p: "stamped ?w1 b d = stamped w b d"
    by (simp add: stamped_def)
  have sub: "(''afterTransition'', l) \<in> set (automataEventBus ?w1) \<Longrightarrow>
      set (call_effects ?w1 ''afterTransition'' ?p l) \<subseteq> set (since w w')" for l
    using delivered_after_transit[OF tr, of l] by (simp add: since p)
  have 1: "Delivered n ''afterTransition'' ?p \<in> set (since w w')"
    using sub[of "External n"] by simp
  have 2: "AppOnTransition app ?p \<in> set (since w w')"
    if "(''afterTransition'', NotifyConnectedApps nm) \<in> set (automataEventBus w)"
      and "js_get (connectedApps w) nm = Own apps" and "app \<in> set apps" and "onTransition app"
    for nm apps app
    using sub[of "NotifyConnectedApps nm"] that by auto
  show ?thesis using 1 2 tr by simp
qed

theorem shared_bus_notifies_witness:
  "fst (Automata_transit (Automata_on duo_idle 0 ''afterTransition'' (External 7)) 1
          (createDelta ''submit'' (JObj []) (JStr [])))
     = Inr \<lparr> next = JStr ''authenticating'',
             output = JObj [(''context'', JObj []), (''buffer'', JObj [])],
             views = [], context = JObj [] \<rparr>
   \<and> Automata.name (heap duo_idle 0) = ''login''
   \<and> Automata.name (heap duo_idle 1) = ''cart''
   \<and> (''afterTransition'', NotifyConnectedApps ''login'') \<in> set (automataEventBus duo_idle)
   \<and> js_get (connectedApps duo_idle) ''login'' = Own [ui]
   \<and> js_get (connectedApps duo_idle) ''cart'' = Own []
   \<and> onTransition ui
   \<and> Delivered 7 ''afterTransition''
        (TransitionOutputData (Automata.name (heap duo_idle 1))
           (stamped duo_idle 1 (createDelta ''submit'' (JObj []) (JStr [])))
           \<lparr> next = JStr ''authenticating'',
             output = JObj [(''context'', JObj []), (''buffer'', JObj [])],
             views = [], context = JObj [] \<rparr>)
      \<in> set (since duo_idle
                (snd (Automata_transit (Automata_on duo_idle 0 ''afterTransition'' (External 7)) 1
                        (createDelta ''submit'' (JObj []) (JStr [])))))
   \<and> AppOnTransition ui
        (TransitionOutputData (Automata.name (heap duo_idle 1))
           (stamped duo_idle 1 (createDelta ''submit'' (JObj []) (JStr [])))
           \<lparr> next = JStr ''authenticating'',
             output = JObj [(''context'', JObj []), (''buffer'', JObj [])],
             views = [], context = JObj [] \<rparr>)
      \<in> set (since duo_idle
                (snd (Automata_transit (Automata_on duo_idle 0 ''afterTransition'' (External 7)) 1
                        (createDelta ''submit'' (JObj []) (JStr [])))))"
proof -
  have h: "fst (Automata_transit (Automata_on duo_idle 0 ''afterTransition'' (External 7)) 1
          (createDelta ''submit'' (JObj []) (JStr [])))
     = Inr \<lparr> next = JStr ''authenticating'',
             output = JObj [(''context'', JObj []), (''buffer'', JObj [])],
             views = [], context = JObj [] \<rparr>"
    by code_simp
  have n0: "Automata.name (heap duo_idle 0) = ''login''" by code_simp
  have n1: "Automata.name (heap duo_idle 1) = ''cart''" by code_simp
  have s: "(''afterTransition'', NotifyConnectedApps ''login'') \<in> set (automataEventBus duo_idle)"
    by code_simp
  have c: "js_get (connectedApps duo_idle) ''login'' = Own [ui]" by code_simp
  have c': "js_get (connectedApps duo_idle) ''cart'' = Own []" by code_simp
  have u: "ui \<in> set [ui]" by simp
  have o: "onTransition ui" by code_simp
  from shared_bus_notifies[OF h] s c u o n0 n1 c' h show ?thesis by blast
qed

subsection \<open>Transitions requested by a View\<close>

lemma this_failed_modelled: "fst (this_failed st d ctx buf) \<noteq> NotModelled"
  by (auto simp: this_failed_def split: option.splits prod.splits outcome.splits)

lemma State_transit_modelled:
  assumes "action d \<notin> set State_prototype" and "action d \<notin> set Object_prototype"
  shows "fst (State_transit st d ctx buf) \<noteq> NotModelled"
  using assms this_failed_modelled
  by (auto simp: State_transit_def simp del: field_truthy.simps
      split: option.splits prod.splits outcome.splits)

lemma complete_modelled:
  assumes "\<And>s. now (heap w r) = Cur s \<Longrightarrow> State_plain s"
  shows "fst (complete w r d res) \<noteq> Inl Unmodelled"
  using assms
  by (auto simp: complete_def Let_def split: option.splits cur.splits jsval.splits)

lemma next_state_plain:
  assumes "plain_table w" and "next_state w om = Cur s"
  shows "State_plain s"
proof -
  from assms(2) obtain k where "js_get (states w) k = Own s"
    by (auto simp: next_state_def split: slot.splits)
  then have "map_of (states w) k = Some s"
    by (auto simp: js_get_def split: option.splits if_splits)
  then have "(k, s) \<in> set (states w)" by (rule map_of_SomeD)
  then show ?thesis using assms(1) by (auto simp: plain_table_def list_all_iff)
qed

lemma transit_modelled:
  assumes "action d \<notin> set State_prototype" and "action d \<notin> set Object_prototype"
    and "in_plain_state w r" and "plain_table w"
  shows "fst (Automata_transit w r d) \<noteq> Inl Unmodelled"
proof -
  from assms(3) obtain st where Cur: "now (heap w r) = Cur st" and plain: "State_plain st"
    by (auto simp: in_plain_state_def split: cur.splits)
  have act: "action (stamped w r d) = action d" by (simp add: stamped_def)
  obtain s c b where
    st: "State_transit st (stamped w r d) (Automata.context (heap w r)) (buffer (heap w r)) = (s, c, b)"
    by (cases "State_transit st (stamped w r d) (Automata.context (heap w r)) (buffer (heap w r))") auto
  have ns: "s \<noteq> NotModelled"
    using State_transit_modelled[of "stamped w r d" st "Automata.context (heap w r)" "buffer (heap w r)"]
      assms(1,2) st act by simp
  show ?thesis
  proof (cases s)
    case NotModelled
    then show ?thesis using ns by simp
  next
    case (Rejected e)
    then show ?thesis using transit_rejected[OF Cur plain, of d e c b] st by simp
  next
    case (Resolved res)
    show ?thesis
    proof (cases res)
      case None
      then show ?thesis using Cur plain st Resolved
        by (simp add: Automata_transit_def Let_def stamped_Cur catch_block_eq)
    next
      case (Some om0)
      let ?W = "traced
          (store w r ((heap w r)\<lparr> Automata.context := c, buffer := b, now := next_state w om0 \<rparr>))
          (emit_effects w ''beforeTransition''
             (LoadedDelta (stamped w r d) (Automata.context (heap w r)) (buffer (heap w r)))
           @ [CleanUp (State.name st)])"
      have "fst (complete ?W r (stamped w r d) (Some om0)) \<noteq> Inl Unmodelled"
        by (rule complete_modelled) (simp add: next_state_plain[OF assms(4)])
      then show ?thesis using transit_resolved[OF Cur plain, of d om0 c b] st Resolved Some
        by simp
    qed
  qed
qed

text \<open>
  What a transit does to its automaton depends on that automaton and on the table of
  States only.
\<close>

lemma transit_cell:
  assumes "heap w1 r = heap w2 r" and "states w1 = states w2"
  shows "heap (snd (Automata_transit w1 r d)) r = heap (snd (Automata_transit w2 r d)) r"
proof -
  have t1: "touches r w1 (snd (Automata_transit w1 r d))" by (rule touches_transit)
  have t2: "touches r w2 (snd (Automata_transit w2 r d))" by (rule touches_transit)
  show ?thesis
  proof (cases "in_plain_state w1 r")
    case False
    then have "\<not> in_plain_state w2 r" using assms(1) by (simp add: in_plain_state_def)
    then have 2: "snd (Automata_transit w2 r d) = emit (emit w2 ''beforeTransition''
          (LoadedDelta (stamped w2 r d) (Automata.context (heap w2 r)) (buffer (heap w2 r))))
          ''failedTransition''
          (LoadedDelta (stamped w2 r d) (Automata.context (heap w2 r)) (buffer (heap w2 r)))
        \<or> snd (Automata_transit w2 r d) = w2"
      by (auto simp: in_plain_state_def Automata_transit_def Let_def stamped_def split: cur.splits)
    from False have 1: "snd (Automata_transit w1 r d) = emit (emit w1 ''beforeTransition''
          (LoadedDelta (stamped w1 r d) (Automata.context (heap w1 r)) (buffer (heap w1 r))))
          ''failedTransition''
          (LoadedDelta (stamped w1 r d) (Automata.context (heap w1 r)) (buffer (heap w1 r)))
        \<or> snd (Automata_transit w1 r d) = w1"
      by (auto simp: in_plain_state_def Automata_transit_def Let_def stamped_def split: cur.splits)
    show ?thesis using 1 2 assms(1) by (auto simp: emit_traced)
  next
    case True
    then obtain st where Cur: "now (heap w1 r) = Cur st" and plain: "State_plain st"
      by (auto simp: in_plain_state_def split: cur.splits)
    then have cur2: "now (heap w2 r) = Cur st" using assms(1) by simp
    have sd: "stamped w2 r d = stamped w1 r d" using assms(1) by (simp add: stamped_def)
    have sf: "states_failed w2 = states_failed w1" using assms(2) by (simp add: states_failed_def)
    have ns: "next_state w2 om = next_state w1 om" for om
      using assms(2) by (simp add: next_state_def cong: slot.case_cong)
    obtain s c b where
      st: "State_transit st (stamped w1 r d) (Automata.context (heap w1 r)) (buffer (heap w1 r)) = (s, c, b)"
      by (cases "State_transit st (stamped w1 r d) (Automata.context (heap w1 r)) (buffer (heap w1 r))") auto
    then have st2:
      "State_transit st (stamped w2 r d) (Automata.context (heap w2 r)) (buffer (heap w2 r)) = (s, c, b)"
      using assms(1) sd by simp
    show ?thesis
    proof (cases s)
      case NotModelled
      then show ?thesis using Cur cur2 plain st st2 assms(1)
        by (simp add: Automata_transit_def Let_def stamped_Cur emit_traced)
    next
      case (Rejected e)
      then show ?thesis
        using transit_rejected[OF Cur plain, of d e c b] transit_rejected[OF cur2 plain, of d e c b]
          st st2 sf assms(1)
        by simp
    next
      case (Resolved res)
      show ?thesis
      proof (cases res)
        case None
        then show ?thesis using Cur cur2 plain st st2 Resolved sf assms(1)
          by (simp add: Automata_transit_def Let_def stamped_Cur catch_block_eq emit_traced log_traced)
      next
        case (Some om)
        let ?W1 = "traced
            (store w1 r ((heap w1 r)\<lparr> Automata.context := c, buffer := b, now := next_state w1 om \<rparr>))
            (emit_effects w1 ''beforeTransition''
               (LoadedDelta (stamped w1 r d) (Automata.context (heap w1 r)) (buffer (heap w1 r)))
             @ [CleanUp (State.name st)])"
        let ?W2 = "traced
            (store w2 r ((heap w2 r)\<lparr> Automata.context := c, buffer := b, now := next_state w2 om \<rparr>))
            (emit_effects w2 ''beforeTransition''
               (LoadedDelta (stamped w2 r d) (Automata.context (heap w2 r)) (buffer (heap w2 r)))
             @ [CleanUp (State.name st)])"
        have e1: "Automata_transit w1 r d = complete ?W1 r (stamped w1 r d) (Some om)"
          using transit_resolved[OF Cur plain, of d om c b] st Resolved Some by simp
        have e2: "Automata_transit w2 r d = complete ?W2 r (stamped w2 r d) (Some om)"
          using transit_resolved[OF cur2 plain, of d om c b] st2 Resolved Some by simp
        obtain es1 where 1: "snd (Automata_transit w1 r d) = traced ?W1 es1"
          using complete_traced[of ?W1 r "stamped w1 r d" "Some om"] e1 by auto
        obtain es2 where 2: "snd (Automata_transit w2 r d) = traced ?W2 es2"
          using complete_traced[of ?W2 r "stamped w2 r d" "Some om"] e2 by auto
        show ?thesis using assms(1) ns by (simp add: 1 2)
      qed
    qed
  qed
qed

subsection \<open>Suspended transits\<close>

lemma State_transit_split:
  "State_transit st d ctx buf =
     (case State_transit_begin st d ctx buf of
        (Awaits out, c, b) \<Rightarrow> State_transit_resume st d out c b
      | (Settles s, c, b) \<Rightarrow> (s, c, b)
      | (Stuck, c, b) \<Rightarrow> (NotModelled, c, b))"
proof (cases "map_of (actions st) (action d)")
  case None
  then show ?thesis
    by (simp add: State_transit_def State_transit_begin_def State_transit_resume_def
        del: field_truthy.simps split: prod.splits)
next
  case (Some h)
  obtain out c b where h: "h d ctx buf = (out, c, b)"
    by (cases "h d ctx buf") auto
  show ?thesis
  proof (cases out)
    case (Threw e)
    then show ?thesis using Some h
      by (simp add: State_transit_def State_transit_begin_def State_transit_resume_def)
  next
    case (Returned res)
    then show ?thesis using Some h
      by (cases res)
        (simp_all add: State_transit_def State_transit_begin_def State_transit_resume_def)
  qed
qed

lemma pending_frame [simp]:
  "store (w\<lparr> pending := ps \<rparr>) r a = (store w r a)\<lparr> pending := ps \<rparr>"
  "traced (w\<lparr> pending := ps \<rparr>) es = (traced w es)\<lparr> pending := ps \<rparr>"
  "states_failed (w\<lparr> pending := ps \<rparr>) = states_failed w"
  "next_state (w\<lparr> pending := ps \<rparr>) om = next_state w om"
  "emit_effects (w\<lparr> pending := ps \<rparr>) ev p = emit_effects w ev p"
proof -
  show "store (w\<lparr> pending := ps \<rparr>) r a = (store w r a)\<lparr> pending := ps \<rparr>"
    by (simp add: store_def)
  show "traced (w\<lparr> pending := ps \<rparr>) es = (traced w es)\<lparr> pending := ps \<rparr>"
    by (simp add: traced_def)
  show "states_failed (w\<lparr> pending := ps \<rparr>) = states_failed w"
    by (simp add: states_failed_def)
  show "next_state (w\<lparr> pending := ps \<rparr>) om = next_state w om"
    by (simp add: next_state_def cong: slot.case_cong)
  have "call_effects (w\<lparr> pending := ps \<rparr>) ev p l = call_effects w ev p l" for l
    by (cases l) simp_all
  then have "call_effects (w\<lparr> pending := ps \<rparr>) ev p = call_effects w ev p" by (intro ext)
  then show "emit_effects (w\<lparr> pending := ps \<rparr>) ev p = emit_effects w ev p"
    by (simp add: emit_effects_def)
qed

lemma touches_pending: "touches r w w' \<Longrightarrow> pending w' = pending w"
  unfolding touches_def by auto

lemma transit_resume_eq:
  "snd (Automata_transit_resume w r d s) =
     (case now (heap w r) of
        Cur st \<Rightarrow>
          if \<not> State_plain st then w
          else
            (case s of
               NotModelled \<Rightarrow> w
             | Rejected e \<Rightarrow>
                 traced (store w r ((heap w r)\<lparr> now := states_failed w \<rparr>))
                   (emit_effects w ''failedTransition''
                      (LoadedDelta d (Automata.context (heap w r)) (buffer (heap w r)))
                    @ [CleanUp (State.name st)])
             | Resolved None \<Rightarrow>
                 traced (store w r ((heap w r)\<lparr> now := states_failed w \<rparr>))
                   (CleanUp (State.name st)
                    # emit_effects w ''failedTransition''
                        (LoadedDelta d (Automata.context (heap w r)) (buffer (heap w r)))
                    @ [CleanUp (State.name st)])
             | Resolved (Some om) \<Rightarrow>
                 snd (complete
                        (traced (store w r ((heap w r)\<lparr> now := next_state w om \<rparr>))
                           [CleanUp (State.name st)])
                        r d (Some om)))
      | Unset \<Rightarrow>
          traced w (emit_effects w ''failedTransition''
                      (LoadedDelta d (Automata.context (heap w r)) (buffer (heap w r))))
      | Alien k \<Rightarrow>
          traced w (emit_effects w ''failedTransition''
                      (LoadedDelta d (Automata.context (heap w r)) (buffer (heap w r)))))"
proof (cases "now (heap w r)")
  case Unset
  then show ?thesis by (simp add: Automata_transit_resume_def emit_traced)
next
  case (Alien k)
  then show ?thesis by (simp add: Automata_transit_resume_def emit_traced)
next
  case (Cur st)
  show ?thesis
  proof (cases "State_plain st")
    case False
    then show ?thesis using Cur by (simp add: Automata_transit_resume_def)
  next
    case True
    show ?thesis
    proof (cases s)
      case NotModelled
      then show ?thesis using Cur True by (simp add: Automata_transit_resume_def)
    next
      case (Rejected e)
      then show ?thesis using Cur True
        by (simp add: Automata_transit_resume_def catch_block_eq)
    next
      case (Resolved res)
      show ?thesis
      proof (cases res)
        case None
        then show ?thesis using Cur True Resolved
          by (simp add: Automata_transit_resume_def catch_block_eq log_traced store_traced)
      next
        case (Some om)
        then show ?thesis using Cur True Resolved
          by (simp add: Automata_transit_resume_def Let_def log_traced store_traced)
      qed
    qed
  qed
qed

lemma touches_transit_resume: "touches r w (snd (Automata_transit_resume w r d s))"
proof -
  have "touches r w (snd (complete (traced (store w r a) es) r d res))" for a es res
    by (rule touches_trans[OF touches_traced_store touches_complete])
  then show ?thesis
    by (simp add: transit_resume_eq split: cur.splits settled.splits option.splits)
qed

lemma touches_turn: "touches (automaton_of it) w (snd (turn it w))"
  by (cases it) (simp_all add: touches_transit_resume split: prod.splits)

lemma turn_next:
  assumes "turn it w = (Some it', w')"
  shows "automaton_of it' = automaton_of it" and "run it' w' = run it w"
  using assms by (cases it; auto simp: run_def split: prod.splits)+

lemma turn_last:
  assumes "turn it w = (None, w')"
  shows "run it w = w'"
  using assms by (simp add: run_def)

lemma transit_resume_cell:
  assumes "heap w1 r = heap w2 r" and "states w1 = states w2"
  shows "heap (snd (Automata_transit_resume w1 r d s)) r
           = heap (snd (Automata_transit_resume w2 r d s)) r"
proof -
  have sf: "states_failed w2 = states_failed w1" using assms(2) by (simp add: states_failed_def)
  have ns: "next_state w2 om = next_state w1 om" for om
    using assms(2) by (simp add: next_state_def cong: slot.case_cong)
  have c: "heap (snd (complete (traced (store w r a) es) r d res)) r = a" for w a es res
    using complete_traced[of "traced (store w r a) es" r d res] by auto
  show ?thesis
    using assms(1) sf ns
    by (simp add: transit_resume_eq c split: cur.splits settled.splits option.splits)
qed

lemma run_cell:
  assumes "heap w1 r = heap w2 r" and "states w1 = states w2" and "automaton_of it = r"
  shows "heap (run it w1) r = heap (run it w2) r"
proof (cases it)
  case (AwaitsState r' d s)
  then show ?thesis using assms transit_resume_cell[OF assms(1,2)] by (simp add: run_def)
next
  case (AwaitsHandler r' st d out)
  obtain s c b where
    1: "State_transit_resume st d out (Automata.context (heap w1 r)) (buffer (heap w1 r)) = (s, c, b)"
    by (cases "State_transit_resume st d out (Automata.context (heap w1 r)) (buffer (heap w1 r))") auto
  have "heap (snd (Automata_transit_resume
                    (store w1 r ((heap w1 r)\<lparr> Automata.context := c, buffer := b \<rparr>)) r d s)) r
        = heap (snd (Automata_transit_resume
                    (store w2 r ((heap w2 r)\<lparr> Automata.context := c, buffer := b \<rparr>)) r d s)) r"
    by (rule transit_resume_cell) (simp_all add: assms)
  then show ?thesis using AwaitsHandler assms 1 by (simp add: run_def)
qed


lemma State_transit_begin_modelled:
  assumes "action d \<notin> set State_prototype" and "action d \<notin> set Object_prototype"
  shows "fst (State_transit_begin st d ctx buf) \<noteq> Stuck"
  using assms
  by (auto simp: State_transit_begin_def State_prototype_def simp del: field_truthy.simps
      split: option.splits prod.splits)

lemma State_transit_resume_modelled: "fst (State_transit_resume st d out ctx buf) \<noteq> NotModelled"
  using this_failed_modelled
  by (auto simp: State_transit_resume_def split: outcome.splits option.splits)

text \<open>
  A transit started and then taken to its end with nothing in between is the transit a
  caller awaits.
\<close>

lemma transit_begin_run:
  assumes cur: "now (heap w r) = Cur st" and plain: "State_plain st"
    and modelled: "fst (State_transit_begin st (stamped w r d) (Automata.context (heap w r))
                          (buffer (heap w r))) \<noteq> Stuck"
  obtains it c b where
    "Automata_transit_begin w r d =
       (Inr (),
        (traced (store w r ((heap w r)\<lparr> Automata.context := c, buffer := b \<rparr>))
           (before_effects w r d))
        \<lparr> pending := pending w @ [it] \<rparr>)"
    and "automaton_of it = r"
    and "run it (traced (store w r ((heap w r)\<lparr> Automata.context := c, buffer := b \<rparr>))
                   (before_effects w r d))
         = snd (Automata_transit w r d)"
proof -
  let ?d = "stamped w r d"
  let ?ctx = "Automata.context (heap w r)"
  let ?buf = "buffer (heap w r)"
  obtain s0 c b where sb: "State_transit_begin st ?d ?ctx ?buf = (s0, c, b)"
    by (cases "State_transit_begin st ?d ?ctx ?buf") auto
  let ?W = "traced (store w r ((heap w r)\<lparr> Automata.context := c, buffer := b \<rparr>))
              (before_effects w r d)"
  have d: "d\<lparr> from := JStr (State.name st) \<rparr> = ?d" using cur by (simp add: stamped_Cur)
  have cmp: "snd (complete (traced (store w r a) es) r ?d res)
               = snd (complete (traced (store w r a) es') r ?d res)
           \<Longrightarrow> True" for a es es' res by simp
  show ?thesis
  proof (cases s0)
    case Stuck
    then show ?thesis using modelled sb by simp
  next
    case (Settles s)
    have b: "Automata_transit_begin w r d = (Inr (), ?W\<lparr> pending := pending w @ [AwaitsState r ?d s] \<rparr>)"
      using cur plain sb Settles
      by (simp add: Automata_transit_begin_def Let_def d emit_traced store_traced before_effects_def)
    have st: "State_transit st ?d ?ctx ?buf = (s, c, b)"
      using sb Settles by (simp add: State_transit_split)
    have ns: "s \<noteq> NotModelled"
      using sb Settles this_failed_modelled[of st ?d ?ctx ?buf]
      by (auto simp: State_transit_begin_def simp del: field_truthy.simps
          split: option.splits prod.splits if_splits)
    have "run (AwaitsState r ?d s) ?W = snd (Automata_transit w r d)"
    proof (cases s)
      case NotModelled
      then show ?thesis using ns by simp
    next
      case (Rejected e)
      then show ?thesis
        using transit_rejected[OF cur plain, of d e c b] st cur plain
        by (simp add: run_def transit_resume_eq before_effects_def store_traced)
    next
      case (Resolved res)
      show ?thesis
      proof (cases res)
        case None
        then show ?thesis using cur plain st Resolved
          by (simp add: run_def transit_resume_eq before_effects_def store_traced
              Automata_transit_def Let_def d catch_block_eq emit_traced log_traced)
      next
        case (Some om)
        then show ?thesis
          using transit_resolved[OF cur plain, of d om c b] st Resolved cur plain
          by (simp add: run_def transit_resume_eq before_effects_def store_traced)
      qed
    qed
    then show ?thesis using that[OF b] by simp
  next
    case (Awaits out)
    have b: "Automata_transit_begin w r d
               = (Inr (), ?W\<lparr> pending := pending w @ [AwaitsHandler r st ?d out] \<rparr>)"
      using cur plain sb Awaits
      by (simp add: Automata_transit_begin_def Let_def d emit_traced store_traced before_effects_def)
    obtain s c' b' where sr: "State_transit_resume st ?d out c b = (s, c', b')"
      by (cases "State_transit_resume st ?d out c b") auto
    have st: "State_transit st ?d ?ctx ?buf = (s, c', b')"
      using sb Awaits sr by (simp add: State_transit_split)
    have ns: "s \<noteq> NotModelled"
      using State_transit_resume_modelled[of st ?d out c b] sr by simp
    have "run (AwaitsHandler r st ?d out) ?W = snd (Automata_transit w r d)"
    proof (cases s)
      case NotModelled
      then show ?thesis using ns by simp
    next
      case (Rejected e)
      then show ?thesis
        using transit_rejected[OF cur plain, of d e c' b'] st sr cur plain
        by (simp add: run_def transit_resume_eq before_effects_def store_traced)
    next
      case (Resolved res)
      show ?thesis
      proof (cases res)
        case None
        then show ?thesis using cur plain st sr Resolved
          by (simp add: run_def transit_resume_eq before_effects_def store_traced
              Automata_transit_def Let_def d catch_block_eq emit_traced log_traced)
      next
        case (Some om)
        then show ?thesis
          using transit_resolved[OF cur plain, of d om c' b'] st sr Resolved cur plain
          by (simp add: run_def transit_resume_eq before_effects_def store_traced)
      qed
    qed
    then show ?thesis using that[OF b] by simp
  qed
qed


lemma emit_effects_cong:
  assumes "automataEventBus w1 = automataEventBus w2" and "connectedApps w1 = connectedApps w2"
  shows "emit_effects w1 ev p = emit_effects w2 ev p"
proof -
  have "call_effects w1 ev p l = call_effects w2 ev p l" for l
    using assms(2) by (cases l) simp_all
  then have "call_effects w1 ev p = call_effects w2 ev p" by (intro ext)
  then show ?thesis using assms(1) by (simp add: emit_effects_def)
qed

lemma before_effects_cong:
  assumes "heap w1 r = heap w2 r"
    and "automataEventBus w1 = automataEventBus w2" and "connectedApps w1 = connectedApps w2"
  shows "before_effects w1 r d = before_effects w2 r d"
  using assms(1) emit_effects_cong[OF assms(2,3)] by (simp add: before_effects_def stamped_def)

lemma tryTransit_declines:
  assumes "in_plain_state w r" and "\<not> accepts w r act"
  shows "Automata_tryTransit w r inp act = (Inr False, w)"
  using assms
  by (auto simp: Automata_tryTransit_def accepts_def in_plain_state_def split: cur.splits)

lemma tryTransit_accepts:
  assumes "in_plain_state w r" and "accepts w r act"
    and "act \<notin> set State_prototype" and "act \<notin> set Object_prototype"
  obtains it c b where
    "Automata_tryTransit w r inp act =
       (Inr True,
        (traced (store w r ((heap w r)\<lparr> Automata.context := c, buffer := b \<rparr>))
           (before_effects w r (createDelta act inp (JStr []))))
        \<lparr> pending := pending w @ [it] \<rparr>)"
    and "automaton_of it = r"
    and "run it (traced (store w r ((heap w r)\<lparr> Automata.context := c, buffer := b \<rparr>))
                   (before_effects w r (createDelta act inp (JStr []))))
         = snd (Automata_transit w r (createDelta act inp (JStr [])))"
proof -
  let ?d = "createDelta act inp (JStr [])"
  from assms(1,2) obtain st where cur: "now (heap w r) = Cur st" and plain: "State_plain st"
    and mem: "has_member st act"
    by (auto simp: in_plain_state_def accepts_def split: cur.splits)
  have act: "action (stamped w r ?d) = act" by (simp add: stamped_def createDelta_def)
  have m: "fst (State_transit_begin st (stamped w r ?d) (Automata.context (heap w r))
                  (buffer (heap w r))) \<noteq> Stuck"
    by (rule State_transit_begin_modelled) (simp_all add: act assms(3,4))
  from transit_begin_run[OF cur plain m] obtain it c b where
    b: "Automata_transit_begin w r ?d =
       (Inr (),
        (traced (store w r ((heap w r)\<lparr> Automata.context := c, buffer := b \<rparr>))
           (before_effects w r ?d))
        \<lparr> pending := pending w @ [it] \<rparr>)"
    and a: "automaton_of it = r"
    and r: "run it (traced (store w r ((heap w r)\<lparr> Automata.context := c, buffer := b \<rparr>))
                   (before_effects w r ?d))
         = snd (Automata_transit w r ?d)"
    by blast
  have "Automata_tryTransit w r inp act =
       (Inr True,
        (traced (store w r ((heap w r)\<lparr> Automata.context := c, buffer := b \<rparr>))
           (before_effects w r ?d))
        \<lparr> pending := pending w @ [it] \<rparr>)"
    using cur mem b by (simp add: Automata_tryTransit_def)
  then show ?thesis using that a r by blast
qed

text \<open>
  The loop of \<open>View.transit\<close> over automata that are each in a plain State: the
  answer is that of the last one asked; every automaton that accepts has emitted
  \<open>beforeTransition\<close> and is suspended, in the order asked; no automaton has changed
  its current State; and each suspended transit, taken to its end, leaves its
  automaton as the awaited transit from the world before the loop does.
\<close>

lemma forEach_asks:
  assumes "act \<notin> set State_prototype" and "act \<notin> set Object_prototype"
    and "distinct rs" and "list_all (in_plain_state w) rs"
  shows "\<exists>w' its.
      forEach_tryTransit w rs inp act t
        = (Inr (if rs = [] then t else accepts w (last rs) act), w')
    \<and> trace w' = trace w @ concat (map (\<lambda>r. before_effects w r (createDelta act inp (JStr [])))
                                    (filter (\<lambda>r. accepts w r act) rs))
    \<and> pending w' = pending w @ its
    \<and> map automaton_of its = filter (\<lambda>r. accepts w r act) rs
    \<and> (\<forall>it\<in>set its. heap (run it w') (automaton_of it)
           = heap (snd (Automata_transit w (automaton_of it) (createDelta act inp (JStr []))))
               (automaton_of it))
    \<and> (\<forall>r. now (heap w' r) = now (heap w r))
    \<and> (\<forall>r. r \<notin> set (filter (\<lambda>r. accepts w r act) rs) \<longrightarrow> heap w' r = heap w r)
    \<and> states w' = states w \<and> automataEventBus w' = automataEventBus w
    \<and> connectedApps w' = connectedApps w"
  using assms(3,4)
proof (induction rs arbitrary: w t)
  case Nil
  show ?case by simp
next
  case (Cons r rs)
  let ?d = "createDelta act inp (JStr [])"
  have pr: "in_plain_state w r" using Cons.prems(2) by simp
  have dist: "distinct rs" and notin: "r \<notin> set rs" using Cons.prems(1) by simp_all
  show ?case
  proof (cases "accepts w r act")
    case False
    have step: "Automata_tryTransit w r inp act = (Inr False, w)"
      by (rule tryTransit_declines[OF pr False])
    have pl: "list_all (in_plain_state w) rs" using Cons.prems(2) by simp
    from Cons.IH[OF dist pl, of False] obtain w' its where
      IH: "forEach_tryTransit w rs inp act False
             = (Inr (if rs = [] then False else accepts w (last rs) act), w')"
        "trace w' = trace w @ concat (map (\<lambda>r. before_effects w r ?d)
                                        (filter (\<lambda>r. accepts w r act) rs))"
        "pending w' = pending w @ its"
        "map automaton_of its = filter (\<lambda>r. accepts w r act) rs"
        "\<forall>it\<in>set its. heap (run it w') (automaton_of it)
           = heap (snd (Automata_transit w (automaton_of it) ?d)) (automaton_of it)"
        "\<forall>r. now (heap w' r) = now (heap w r)"
        "\<forall>r. r \<notin> set (filter (\<lambda>r. accepts w r act) rs) \<longrightarrow> heap w' r = heap w r"
        "states w' = states w" "automataEventBus w' = automataEventBus w"
        "connectedApps w' = connectedApps w"
      by blast
    have res: "forEach_tryTransit w (r # rs) inp act t
             = (Inr (if r # rs = [] then t else accepts w (last (r # rs)) act), w')"
      using step IH(1) False by simp
    show ?thesis
      apply (rule exI[of _ w'], rule exI[of _ its])
      using res IH(2-10) False by simp
  next
    case True
    from tryTransit_accepts[OF pr True assms(1,2), of inp] obtain it c b where
      step: "Automata_tryTransit w r inp act =
         (Inr True,
          (traced (store w r ((heap w r)\<lparr> Automata.context := c, buffer := b \<rparr>))
             (before_effects w r ?d))
          \<lparr> pending := pending w @ [it] \<rparr>)"
      and a: "automaton_of it = r"
      and run: "run it (traced (store w r ((heap w r)\<lparr> Automata.context := c, buffer := b \<rparr>))
                     (before_effects w r ?d))
           = snd (Automata_transit w r ?d)"
      by blast
    let ?W = "traced (store w r ((heap w r)\<lparr> Automata.context := c, buffer := b \<rparr>))
                (before_effects w r ?d)"
    let ?w1 = "?W\<lparr> pending := pending w @ [it] \<rparr>"
    have h1: "heap ?w1 r' = heap w r'" if "r' \<noteq> r" for r' using that by simp
    have n1: "now (heap ?w1 r') = now (heap w r')" for r' by simp
    have acc: "accepts ?w1 r' act = accepts w r' act" for r'
      using n1[of r'] by (simp only: accepts_def)
    have accf: "(\<lambda>r. accepts ?w1 r act) = (\<lambda>r. accepts w r act)"
      using acc by (intro ext)
    have pl: "list_all (in_plain_state ?w1) rs"
      using Cons.prems(2) n1 by (simp add: list_all_iff in_plain_state_def)
    from Cons.IH[OF dist pl, of True] obtain w' its where
      IH: "forEach_tryTransit ?w1 rs inp act True
             = (Inr (if rs = [] then True else accepts ?w1 (last rs) act), w')"
        "trace w' = trace ?w1 @ concat (map (\<lambda>r. before_effects ?w1 r ?d)
                                        (filter (\<lambda>r. accepts ?w1 r act) rs))"
        "pending w' = pending ?w1 @ its"
        "map automaton_of its = filter (\<lambda>r. accepts ?w1 r act) rs"
        "\<forall>it\<in>set its. heap (run it w') (automaton_of it)
           = heap (snd (Automata_transit ?w1 (automaton_of it) ?d)) (automaton_of it)"
        "\<forall>r. now (heap w' r) = now (heap ?w1 r)"
        "\<forall>r. r \<notin> set (filter (\<lambda>r. accepts ?w1 r act) rs) \<longrightarrow> heap w' r = heap ?w1 r"
        "states w' = states ?w1" "automataEventBus w' = automataEventBus ?w1"
        "connectedApps w' = connectedApps ?w1"
      by blast
    have be: "before_effects ?w1 r' ?d = before_effects w r' ?d" if "r' \<in> set rs" for r'
    proof -
      have "r' \<noteq> r" using that notin by auto
      then show ?thesis by (intro before_effects_cong) simp_all
    qed
    have bes: "map (\<lambda>r. before_effects ?w1 r ?d) (filter (\<lambda>r. accepts w r act) rs)
                 = map (\<lambda>r. before_effects w r ?d) (filter (\<lambda>r. accepts w r act) rs)"
      by (rule map_cong[OF refl]) (simp add: be)
    have 1: "forEach_tryTransit w (r # rs) inp act t
             = (Inr (if r # rs = [] then t else accepts w (last (r # rs)) act), w')"
      using step IH(1) True acc by simp
    have 2: "trace w' = trace w @ concat (map (\<lambda>r. before_effects w r ?d)
                                        (filter (\<lambda>r. accepts w r act) (r # rs)))"
      using IH(2) True bes by (simp add: accf)
    have 3: "pending w' = pending w @ (it # its)" using IH(3) by simp
    have 4: "map automaton_of (it # its) = filter (\<lambda>r. accepts w r act) (r # rs)"
      using IH(4) True a by (simp add: accf)
    have 5: "heap (run it' w') (automaton_of it')
           = heap (snd (Automata_transit w (automaton_of it') ?d)) (automaton_of it')"
      if "it' \<in> set (it # its)" for it'
    proof (cases "it' \<in> set its")
      case True
      then have "automaton_of it' \<in> set rs"
        using IH(4) by (metis (no_types, lifting) filter_is_subset image_eqI list.set_map subsetD)
      then have ne: "automaton_of it' \<noteq> r" using notin by auto
      have "heap (snd (Automata_transit ?w1 (automaton_of it') ?d)) (automaton_of it')
              = heap (snd (Automata_transit w (automaton_of it') ?d)) (automaton_of it')"
        by (rule transit_cell) (simp_all add: ne)
      then show ?thesis using IH(5) True by simp
    next
      case False
      then have eq: "it' = it" using that by simp
      have "r \<notin> set (filter (\<lambda>r. accepts ?w1 r act) rs)" using notin by simp
      then have hr: "heap w' r = heap ?W r" using IH(7) by simp
      have sr: "states w' = states ?W" using IH(8) by simp
      have "heap (run it w') r = heap (run it ?W) r"
        by (rule run_cell[OF hr sr a])
      then show ?thesis using eq a run by simp
    qed
    have 6: "now (heap w' r') = now (heap w r')" for r' using IH(6) n1 by simp
    have 7: "heap w' r' = heap w r'" if "r' \<notin> set (filter (\<lambda>r. accepts w r act) (r # rs))" for r'
    proof -
      from that True have "r' \<noteq> r" and "r' \<notin> set (filter (\<lambda>r. accepts w r act) rs)" by auto
      then show ?thesis using IH(7) h1 by (simp add: accf)
    qed
    have 8: "states w' = states w" "automataEventBus w' = automataEventBus w"
      "connectedApps w' = connectedApps w"
      using IH(8,9,10) by simp_all
    show ?thesis
      apply (rule exI[of _ w'], rule exI[of _ "it # its"])
      using 1 2 3 4 5 6 7 8 by blast
  qed
qed

text \<open>
  Whatever the order of the turns: when every suspended transit is for another
  automaton, each ends as its own turns, taken alone, would end it.
\<close>

lemma settles_cells:
  assumes "settles w w'"
    and "distinct (map automaton_of (pending w))"
    and "\<forall>it\<in>set (pending w). heap (run it w) (automaton_of it) = T (automaton_of it)"
    and "\<forall>r\<in>R. r \<notin> automaton_of ` set (pending w) \<longrightarrow> heap w r = T r"
  shows "\<forall>r\<in>R. heap w' r = T r"
  using assms
proof (induction rule: settles.induct)
  case (rest w)
  then show ?case by simp
next
  case (step i w w')
  let ?ps = "pending w"
  let ?it = "?ps ! i"
  let ?r = "automaton_of ?it"
  obtain nxt w1 where t: "turn ?it w = (nxt, w1)"
    by (cases "turn ?it w") auto
  let ?nl = "case nxt of Some it \<Rightarrow> [it] | None \<Rightarrow> []"
  let ?ps' = "take i ?ps @ ?nl @ drop (Suc i) ?ps"
  have res: "resume i w = w1\<lparr> pending := ?ps' \<rparr>"
    using step.hyps(1) t by (simp add: resume_def)
  have tch: "touches ?r w w1" using touches_turn[of ?it w] t by simp
  have split: "?ps = take i ?ps @ ?it # drop (Suc i) ?ps"
    by (rule id_take_nth_drop[OF step.hyps(1)])
  have dist: "distinct (map automaton_of (take i ?ps @ ?it # drop (Suc i) ?ps))"
    using step.prems(1) split by simp
  have mem: "?it \<in> set ?ps" using step.hyps(1) by simp
  have others: "set (take i ?ps) \<union> set (drop (Suc i) ?ps) \<subseteq> set ?ps"
    using set_take_subset[of i ?ps] set_drop_subset[of "Suc i" ?ps] by blast
  have other_r: "automaton_of it \<noteq> ?r"
    if "it \<in> set (take i ?ps) \<union> set (drop (Suc i) ?ps)" for it
    using dist that by (force simp: image_iff)
  have nl: "\<forall>it\<in>set ?nl. automaton_of it = ?r \<and> run it w1 = run ?it w"
    using turn_next[of ?it w _ w1] t by (cases nxt) auto
  have 1: "distinct (map automaton_of (pending (resume i w)))"
    using dist nl by (cases nxt) (auto simp: res)
  have 2: "\<forall>it\<in>set (pending (resume i w)).
             heap (run it (resume i w)) (automaton_of it) = T (automaton_of it)"
  proof
    fix it assume "it \<in> set (pending (resume i w))"
    then have cases: "it \<in> set ?nl \<or> it \<in> set (take i ?ps) \<union> set (drop (Suc i) ?ps)"
      by (auto simp: res)
    have p: "heap (run it (resume i w)) (automaton_of it) = heap (run it w1) (automaton_of it)"
      by (rule run_cell) (simp_all add: res)
    from cases show "heap (run it (resume i w)) (automaton_of it) = T (automaton_of it)"
    proof
      assume "it \<in> set ?nl"
      then have "automaton_of it = ?r" and "run it w1 = run ?it w" using nl by auto
      then show ?thesis using p step.prems(2) mem by simp
    next
      assume o: "it \<in> set (take i ?ps) \<union> set (drop (Suc i) ?ps)"
      then have ne: "automaton_of it \<noteq> ?r" by (rule other_r)
      have "heap (run it w1) (automaton_of it) = heap (run it w) (automaton_of it)"
        by (rule run_cell[OF touches_heap[OF tch ne] touches_states[OF tch] refl])
      then show ?thesis using p step.prems(2) o others by auto
    qed
  qed
  have 3: "\<forall>r\<in>R. r \<notin> automaton_of ` set (pending (resume i w)) \<longrightarrow> heap (resume i w) r = T r"
  proof (intro ballI impI)
    fix r assume r: "r \<in> R" and n: "r \<notin> automaton_of ` set (pending (resume i w))"
    show "heap (resume i w) r = T r"
    proof (cases "r = ?r")
      case True
      then have "nxt = None" using n nl by (cases nxt) (auto simp: res)
      then have "run ?it w = w1" using turn_last[of ?it w w1] t by simp
      then show ?thesis using step.prems(2) mem True by (auto simp: res)
    next
      case False
      have "r \<notin> automaton_of ` set ?ps"
      proof
        assume "r \<in> automaton_of ` set ?ps"
        then obtain it where it: "it \<in> set ?ps" and rit: "r = automaton_of it" by blast
        from it split have "it = ?it \<or> it \<in> set (take i ?ps) \<union> set (drop (Suc i) ?ps)"
          by (metis Un_iff set_ConsD set_append)
        then show False using False rit n by (auto simp: res)
      qed
      then have "heap w r = T r" using step.prems(3) r by blast
      then show ?thesis using touches_heap[OF tch False] by (simp add: res)
    qed
  qed
  show ?case by (rule step.IH[OF 1 2 3])
qed

text \<open>The suspended transits can always be taken to their ends.\<close>

lemma settles_total: "\<exists>w'. settles w w'"
proof (induction "sum_list (map (\<lambda>it. case it of AwaitsHandler r st d out \<Rightarrow> 2::nat
                                       | AwaitsState r d s \<Rightarrow> 1) (pending w))"
       arbitrary: w rule: less_induct)
  case less
  show ?case
  proof (cases "pending w")
    case Nil
    then show ?thesis using settles.rest by blast
  next
    case (Cons it ps)
    obtain nxt w1 where t: "turn it w = (nxt, w1)"
      by (cases "turn it w") auto
    have res: "pending (resume 0 w) = (case nxt of Some it \<Rightarrow> [it] | None \<Rightarrow> []) @ ps"
      using Cons t by (simp add: resume_def)
    have "sum_list (map (\<lambda>it. case it of AwaitsHandler r st d out \<Rightarrow> 2::nat
                                       | AwaitsState r d s \<Rightarrow> 1) (pending (resume 0 w)))
          < sum_list (map (\<lambda>it. case it of AwaitsHandler r st d out \<Rightarrow> 2::nat
                                       | AwaitsState r d s \<Rightarrow> 1) (pending w))"
      using t by (cases it) (auto simp: res Cons split: prod.splits)
    from less[OF this] obtain w' where "settles (resume 0 w) w'" by blast
    then have "settles w w'" using settles.step[of 0 w w'] Cons by simp
    then show ?thesis by blast
  qed
qed


lemma forEach_none:
  assumes "list_all (in_plain_state w) rs" and "list_all (\<lambda>r. \<not> accepts w r act) rs"
  shows "forEach_tryTransit w rs inp act t = (Inr (if rs = [] then t else False), w)"
  using assms
proof (induction rs arbitrary: t)
  case Nil
  show ?case by simp
next
  case (Cons r rs)
  have "Automata_tryTransit w r inp act = (Inr False, w)"
    using Cons.prems by (intro tryTransit_declines) simp_all
  then show ?case using Cons.IH[of False] Cons.prems by simp
qed

text \<open>
  C4 as stated fails.  With \<open>login\<close> registered before \<open>cart\<close> and both in a State
  that defines \<open>submit\<close>, the call returns with both transits started and suspended,
  each having emitted \<open>beforeTransition\<close>, and neither automaton has moved yet; when
  the suspended transits have taken their turns, both automata are in
  \<open>authenticating\<close>: the first acceptance does not settle the call.  With \<open>login\<close>
  accepting and \<open>cart\<close> not, the call throws NoMatchingTransitionError although
  \<open>login\<close> accepted, and \<open>login\<close> performs the transition all the same.  And with
  automata registered in the order \<open>b\<close>, \<open>1\<close>, the one named \<open>1\<close> is asked first.
\<close>

theorem view_transit_not_first_wins:
  "Object_values (allTomata duo_idle) = [0, 1]
   \<and> accepts duo_idle 0 ''submit'' \<and> accepts duo_idle 1 ''submit''
   \<and> fst (View_transit duo_idle header (JObj []) ''submit'' []) = Inr ()
   \<and> map automaton_of (pending duo_asked) = [0, 1]
   \<and> since duo_idle duo_asked
       = [Emitted ''beforeTransition''
            (LoadedDelta \<lparr> action = ''submit'', input = JObj [], from = JStr ''idle'' \<rparr> [] []),
          Emitted ''beforeTransition''
            (LoadedDelta \<lparr> action = ''submit'', input = JObj [], from = JStr ''idle'' \<rparr> [] [])]
   \<and> current_name duo_asked 0 = Some ''idle'' \<and> current_name duo_asked 1 = Some ''idle''
   \<and> length (pending duo_settled) = 0
   \<and> current_name duo_settled 0 = Some ''authenticating''
   \<and> current_name duo_settled 1 = Some ''authenticating''
   \<and> Object_values (allTomata duo_split) = [0, 1]
   \<and> accepts duo_split 0 ''submit'' \<and> \<not> accepts duo_split 1 ''submit''
   \<and> fst (View_transit duo_split header (JObj []) ''submit'' [])
       = Inl (NoMatchingTransition ''undefined'' ''submit'')
   \<and> map automaton_of (pending split_asked) = [0]
   \<and> length (pending split_settled) = 0
   \<and> current_name split_settled 0 = Some ''authenticating''
   \<and> map fst (allTomata numbered) = [''b'', ''1'']
   \<and> map snd (allTomata numbered) = [0, 1]
   \<and> accepts numbered 0 ''submit'' \<and> accepts numbered 1 ''submit''
   \<and> Object_values (allTomata numbered) = [1, 0]
   \<and> map automaton_of (pending numbered_asked) = [1, 0]"
  by code_simp

text \<open>
  C4 as amended.  A View bound to no automaton, asked without naming one, while no
  transit is suspended; every registered automaton initialised; plain States; and an
  action that is not the name of an inherited member of State objects.  The automata
  are asked in the order \<open>Object.values(allTomata)\<close> lists them: those whose names are
  array indices first, in ascending numeric order, then the others in registration
  order.  When the call returns or throws, every automaton that accepts has started
  its transit, in that order: each has emitted \<open>beforeTransition\<close> and is suspended,
  nothing else has happened, and no automaton has changed its current State.  The call
  returns normally when the last automaton asked accepts; when no registered automaton
  accepts, it throws NoMatchingTransitionError and changes nothing.  The suspended
  transits can take their turns to the end, and in whatever order they take them,
  every automaton that accepted ends as its own awaited transit from the world before
  the call leaves it, and the others are as they were; none of these transits is one
  the embedding does not model.
\<close>

theorem view_transit_asks_all:
  assumes "View.automata v = None"
    and "act \<notin> set State_prototype" and "act \<notin> set Object_prototype"
    and "distinct (Object_values (allTomata w))"
    and "list_all (in_plain_state w) (Object_values (allTomata w))"
    and "plain_table w"
    and "pending w = []"
  shows "since w (snd (View_transit w v inp act []))
        = concat (map (\<lambda>r. before_effects w r (createDelta act inp (JStr [])))
                    (filter (\<lambda>r. accepts w r act) (Object_values (allTomata w))))
    \<and> map automaton_of (pending (snd (View_transit w v inp act [])))
        = filter (\<lambda>r. accepts w r act) (Object_values (allTomata w))
    \<and> (\<forall>r. now (heap (snd (View_transit w v inp act [])) r) = now (heap w r))
    \<and> (Object_values (allTomata w) \<noteq> []
          \<and> accepts w (last (Object_values (allTomata w))) act \<longrightarrow>
         fst (View_transit w v inp act []) = Inr ())
    \<and> (list_all (\<lambda>r. \<not> accepts w r act) (Object_values (allTomata w)) \<longrightarrow>
         View_transit w v inp act [] = (Inl (NoMatchingTransition ''undefined'' act), w))
    \<and> (\<exists>w'. settles (snd (View_transit w v inp act [])) w')
    \<and> (\<forall>w'. settles (snd (View_transit w v inp act [])) w' \<longrightarrow>
          list_all
            (\<lambda>r. heap w' r =
                   heap (if accepts w r act
                         then snd (Automata_transit w r (createDelta act inp (JStr []))) else w) r)
            (Object_values (allTomata w)))
    \<and> list_all (\<lambda>r. fst (Automata_transit w r (createDelta act inp (JStr []))) \<noteq> Inl Unmodelled)
         (Object_values (allTomata w))"
proof -
  let ?rs = "Object_values (allTomata w)"
  let ?d = "createDelta act inp (JStr [])"
  let ?T = "\<lambda>r. heap (if accepts w r act then snd (Automata_transit w r ?d) else w) r"
  from forEach_asks[OF assms(2,3,4,5), of inp False] obtain w' its where
    run: "forEach_tryTransit w ?rs inp act False
            = (Inr (if ?rs = [] then False else accepts w (last ?rs) act), w')"
    and tr: "trace w' = trace w @ concat (map (\<lambda>r. before_effects w r ?d)
                                           (filter (\<lambda>r. accepts w r act) ?rs))"
    and pe: "pending w' = pending w @ its"
    and au: "map automaton_of its = filter (\<lambda>r. accepts w r act) ?rs"
    and ru: "\<forall>it\<in>set its. heap (run it w') (automaton_of it)
               = heap (snd (Automata_transit w (automaton_of it) ?d)) (automaton_of it)"
    and no: "\<forall>r. now (heap w' r) = now (heap w r)"
    and he: "\<forall>r. r \<notin> set (filter (\<lambda>r. accepts w r act) ?rs) \<longrightarrow> heap w' r = heap w r"
    by blast
  have vt: "View_transit w v inp act [] =
      (if ?rs \<noteq> [] \<and> accepts w (last ?rs) act then Inr ()
       else Inl (NoMatchingTransition ''undefined'' act), w')"
    using assms(1) run by (simp add: View_transit_def Let_def)
  have w': "snd (View_transit w v inp act []) = w'" by (simp add: vt)
  have 1: "fst (View_transit w v inp act []) = Inr ()"
    if "?rs \<noteq> [] \<and> accepts w (last ?rs) act"
    using that by (simp add: vt)
  have 2: "since w w' = concat (map (\<lambda>r. before_effects w r ?d)
                                  (filter (\<lambda>r. accepts w r act) ?rs))"
    by (simp add: since_def tr)
  have 3: "map automaton_of (pending w') = filter (\<lambda>r. accepts w r act) ?rs"
    by (simp add: pe au assms(7))
  have 5: "View_transit w v inp act [] = (Inl (NoMatchingTransition ''undefined'' act), w)"
    if none: "list_all (\<lambda>r. \<not> accepts w r act) ?rs"
    using assms(1) forEach_none[OF assms(5) none, of inp False]
    by (simp add: View_transit_def Let_def)
  have 6: "\<exists>w''. settles w' w''" by (rule settles_total)
  have 7: "list_all (\<lambda>r. heap w'' r = ?T r) ?rs" if s: "settles w' w''" for w''
  proof -
    have a: "distinct (map automaton_of (pending w'))"
      using 3 assms(4) by simp
    have b: "\<forall>it\<in>set (pending w'). heap (run it w') (automaton_of it) = ?T (automaton_of it)"
    proof
      fix it assume it: "it \<in> set (pending w')"
      then have "automaton_of it \<in> set (map automaton_of (pending w'))" by simp
      then have "accepts w (automaton_of it) act" unfolding 3 by simp
      moreover have "it \<in> set its" using it by (simp add: pe assms(7))
      ultimately show "heap (run it w') (automaton_of it) = ?T (automaton_of it)"
        using ru by simp
    qed
    have c: "\<forall>r\<in>set ?rs. r \<notin> automaton_of ` set (pending w') \<longrightarrow> heap w' r = ?T r"
    proof (intro ballI impI)
      fix r assume r: "r \<in> set ?rs" and n: "r \<notin> automaton_of ` set (pending w')"
      have "automaton_of ` set (pending w') = set (filter (\<lambda>r. accepts w r act) ?rs)"
        using 3 by (metis list.set_map)
      then have nf: "r \<notin> set (filter (\<lambda>r. accepts w r act) ?rs)" using n by simp
      then have "\<not> accepts w r act" using r by simp
      then show "heap w' r = ?T r" using he nf by simp
    qed
    from settles_cells[OF s a b c] show ?thesis by (simp add: list_all_iff)
  qed
  have 8: "list_all (\<lambda>r. fst (Automata_transit w r ?d) \<noteq> Inl Unmodelled) ?rs"
    unfolding list_all_iff
  proof
    fix r assume "r \<in> set ?rs"
    then have "in_plain_state w r" using assms(5) by (simp add: list_all_iff)
    then show "fst (Automata_transit w r ?d) \<noteq> Inl Unmodelled"
      using transit_modelled[of ?d w r] assms(2,3,6) by (simp add: createDelta_def)
  qed
  show ?thesis unfolding w' using 1 2 3 no 5 6 7 8 by blast
qed

theorem view_transit_asks_all_witness:
  "View.automata header = None
   \<and> ''submit'' \<notin> set State_prototype \<and> ''submit'' \<notin> set Object_prototype
   \<and> ''logout'' \<notin> set State_prototype \<and> ''logout'' \<notin> set Object_prototype
   \<and> distinct (Object_values (allTomata duo_idle))
   \<and> list_all (in_plain_state duo_idle) (Object_values (allTomata duo_idle))
   \<and> plain_table duo_idle
   \<and> pending duo_idle = []
   \<and> list_all (\<lambda>r. \<not> accepts duo_idle r ''logout'') (Object_values (allTomata duo_idle))
   \<and> settles duo_asked duo_settled
   \<and> Object_values (allTomata duo_idle) \<noteq> []
   \<and> accepts duo_idle (last (Object_values (allTomata duo_idle))) ''submit''
   \<and> fst (View_transit duo_idle header (JObj []) ''submit'' []) = Inr ()
   \<and> since duo_idle duo_asked
       = concat (map (\<lambda>r. before_effects duo_idle r (createDelta ''submit'' (JObj []) (JStr [])))
                   (filter (\<lambda>r. accepts duo_idle r ''submit'') (Object_values (allTomata duo_idle))))
   \<and> map automaton_of (pending duo_asked)
       = filter (\<lambda>r. accepts duo_idle r ''submit'') (Object_values (allTomata duo_idle))
   \<and> now (heap duo_asked 0) = now (heap duo_idle 0)
   \<and> now (heap duo_asked 1) = now (heap duo_idle 1)
   \<and> list_all
        (\<lambda>r. heap duo_settled r =
               heap (if accepts duo_idle r ''submit''
                     then snd (Automata_transit duo_idle r (createDelta ''submit'' (JObj []) (JStr [])))
                     else duo_idle) r)
        (Object_values (allTomata duo_idle))
   \<and> list_all
        (\<lambda>r. fst (Automata_transit duo_idle r (createDelta ''submit'' (JObj []) (JStr [])))
               \<noteq> Inl Unmodelled)
        (Object_values (allTomata duo_idle))
   \<and> View_transit duo_idle header (JObj []) ''logout'' []
       = (Inl (NoMatchingTransition ''undefined'' ''logout''), duo_idle)"
proof -
  have h1: "View.automata header = None" by code_simp
  have h2: "''submit'' \<notin> set State_prototype" by code_simp
  have h3: "''submit'' \<notin> set Object_prototype" by code_simp
  have h2': "''logout'' \<notin> set State_prototype" by code_simp
  have h3': "''logout'' \<notin> set Object_prototype" by code_simp
  have h4: "distinct (Object_values (allTomata duo_idle))" by code_simp
  have h5: "list_all (in_plain_state duo_idle) (Object_values (allTomata duo_idle))"
    by code_simp
  have h6: "plain_table duo_idle" by code_simp
  have h7: "pending duo_idle = []" by code_simp
  have h8: "list_all (\<lambda>r. \<not> accepts duo_idle r ''logout'') (Object_values (allTomata duo_idle))"
    by code_simp
  have l0: "0 < length (pending duo_asked)" by code_simp
  have l1: "1 < length (pending (resume 0 duo_asked))" by code_simp
  have l2: "0 < length (pending (resume 1 (resume 0 duo_asked)))" by code_simp
  have l3: "0 < length (pending (resume 0 (resume 1 (resume 0 duo_asked))))" by code_simp
  have l4: "pending duo_settled = []" by code_simp
  have s: "settles duo_asked duo_settled"
    using settles.step[OF l0 settles.step[OF l1 settles.step[OF l2 settles.step[OF l3 settles.rest]]]]
      l4
    by (simp add: duo_settled_def)
  have r: "Object_values (allTomata duo_idle) \<noteq> []" by code_simp
  have r': "accepts duo_idle (last (Object_values (allTomata duo_idle))) ''submit''"
    by code_simp
  from view_transit_asks_all[OF h1 h2 h3 h4 h5 h6 h7, of "JObj []"]
    view_transit_asks_all[OF h1 h2' h3' h4 h5 h6 h7, of "JObj []"]
    h1 h2 h3 h2' h3' h4 h5 h6 h7 h8 s r r'
  show ?thesis unfolding duo_asked_def[symmetric] by blast
qed

end
